theory Spec2Isabelle
  imports Complex_Main "HOL-Library.Sublist"
begin

section \<open>Context Matcher: the embedding of main.py\<close>

text \<open>
  Modelling decisions.
  \<^item> A Python \<open>str\<close> is modelled at two levels. For the matcher it is a
    \<^typ>\<open>string\<close>: the ASCII range is modelled exactly (\<open>str.isspace\<close>,
    \<open>str.lower\<close>), and a character outside ASCII is carried as the bytes of its UTF-8
    encoding, which \<open>strip\<close> and \<open>lower\<close> of this level leave alone; the only such
    character of the program is the en dash of the five titles. For the normalizer alone it
    is also a list of code points, with the whitespace and the lower case of every code
    point: \<open>normalize_unicode\<close> is \<open>normalize\<close> on all strings, and
    \<open>normalize_text\<close> is proved to agree with it on the ASCII strings.
  \<^item> A Python \<open>float\<close> is a \<^typ>\<open>real\<close>. Every score the program computes is a sum
    of at most one of 0.45, 0.27, one of 0.35, 0.21, and 0.2: eighteen values that are
    pairwise at least 0.01 apart and none of which is 0.5 or 0.85. A binary rounding
    error is below \<open>10\<^sup>-\<^sup>1\<^sup>5\<close>, so no comparison of the program and no value of
    \<open>round(score, 2)\<close> depends on it, and the full score is exactly 1.0 in binary
    arithmetic as well.
  \<^item> A detail of the library is a dictionary. The keys \<open>id\<close>, \<open>title\<close> and
    \<open>notes\<close> are read by indexing and are fields; the keys \<open>host\<close>, \<open>adjacent\<close>
    and \<open>exposure\<close> are read by \<open>.get(key, "")\<close> and are optional fields.
  \<^item> \<open>match_detail\<close> reads the global \<open>SAMPLE_DETAILS\<close>; \<open>match_with\<close> is its
    body with the library as an argument, and \<open>match_detail\<close> is \<open>match_with\<close> at
    the shipped library.
\<close>

subsection \<open>Data models\<close>

record MatchInput =
  host_element :: string
  adjacent_element :: string
  exposure :: string

record MatchOutput =
  suggested_detail :: string
  confidence :: real
  reason :: string

record Detail =
  d_id :: string
  d_title :: string
  d_host :: "string option"
  d_adjacent :: "string option"
  d_exposure :: "string option"
  d_notes :: string

text \<open>The dictionary \<open>input_norm\<close> built by \<open>match_detail\<close>, with its three keys.\<close>

record NormInput =
  in_host :: string
  in_adjacent :: string
  in_exposure :: string

text \<open>\<open>d.get(key, default)\<close> on an optional field.\<close>

definition dict_get :: "string option \<Rightarrow> string \<Rightarrow> string" where
  "dict_get v dflt = (case v of None \<Rightarrow> dflt | Some x \<Rightarrow> x)"

subsection \<open>The library\<close>

text \<open>The en dash U+2013 of the titles, in UTF-8.\<close>

definition en_dash :: string where
  "en_dash = [CHR 0xE2, CHR 0x80, CHR 0x93]"

definition D_001 :: Detail where
  "D_001 = \<lparr>d_id = ''D-001'',
     d_title = ''External Wall'' @ en_dash @ ''Slab Junction Waterproofing'',
     d_host = Some ''external wall'', d_adjacent = Some ''slab'',
     d_exposure = Some ''external'',
     d_notes = ''Typical waterproofing and junction details for above-grade external wall to slab.''\<rparr>"

definition D_002 :: Detail where
  "D_002 = \<lparr>d_id = ''D-002'',
     d_title = ''Internal Partition'' @ en_dash @ ''Slab Recess'',
     d_host = Some ''internal partition'', d_adjacent = Some ''slab'',
     d_exposure = Some ''internal'',
     d_notes = ''Interior partition details where a slab recess occurs.''\<rparr>"

definition D_003 :: Detail where
  "D_003 = \<lparr>d_id = ''D-003'',
     d_title = ''Curtain Wall'' @ en_dash @ ''CMU Sill Detail'',
     d_host = Some ''curtain wall'', d_adjacent = Some ''cmu'',
     d_exposure = Some ''external'',
     d_notes = ''Sill interface with masonry backup (CMU).''\<rparr>"

definition D_004 :: Detail where
  "D_004 = \<lparr>d_id = ''D-004'',
     d_title = ''Roof Edge'' @ en_dash @ ''Parapet Flashing'',
     d_host = Some ''roof edge'', d_adjacent = Some ''parapet'',
     d_exposure = Some ''external'',
     d_notes = ''Roof edge termination and flashing detail.''\<rparr>"

definition D_005 :: Detail where
  "D_005 = \<lparr>d_id = ''D-005'',
     d_title = ''Foundation Wall'' @ en_dash @ ''Footing Junction'',
     d_host = Some ''foundation wall'', d_adjacent = Some ''footing'',
     d_exposure = Some ''external'',
     d_notes = ''Below-grade foundation wall to footing connection detail.''\<rparr>"

definition SAMPLE_DETAILS :: "Detail list" where
  "SAMPLE_DETAILS = [D_001, D_002, D_003, D_004, D_005]"

subsection \<open>Normalization\<close>

definition NORMALIZATION_SYNONYMS :: "(string \<times> string) list" where
  "NORMALIZATION_SYNONYMS =
    [(''exterior'', ''external''),
     (''interior'', ''internal''),
     (''concrete slab'', ''slab''),
     (''masonry'', ''cmu''),
     (''ext wall'', ''external wall''),
     (''int wall'', ''internal wall'')]"

text \<open>\<open>str.isspace\<close> on ASCII: tab, line feed, vertical tab, form feed, carriage
  return, the four separators 0x1C to 0x1F, and the space.\<close>

definition isspace :: "char \<Rightarrow> bool" where
  "isspace c = (let n = (of_char c :: nat) in (9 \<le> n \<and> n \<le> 13) \<or> (28 \<le> n \<and> n \<le> 32))"

text \<open>\<open>s.strip()\<close>: whitespace removed at both ends.\<close>

definition strip :: "string \<Rightarrow> string" where
  "strip s = rev (dropWhile isspace (rev (dropWhile isspace s)))"

definition lower_char :: "char \<Rightarrow> char" where
  "lower_char c = (let n = (of_char c :: nat) in if 65 \<le> n \<and> n \<le> 90 then char_of (n + 32) else c)"

text \<open>\<open>s.lower()\<close>.\<close>

definition lower :: "string \<Rightarrow> string" where
  "lower s = map lower_char s"

text \<open>\<open>s.replace(old, new)\<close>: the occurrences of \<open>old\<close> are found from the left and do
  not overlap; with an empty \<open>old\<close>, \<open>new\<close> is put before every character and at the
  end.\<close>

function replace :: "'a list \<Rightarrow> 'a list \<Rightarrow> 'a list \<Rightarrow> 'a list" where
  "replace [] old new = (if old = [] then new else [])"
| "replace (c # cs) old new =
     (if old = [] then new @ c # replace cs old new
      else if prefix old (c # cs) then new @ replace (drop (length old) (c # cs)) old new
      else c # replace cs old new)"
  by pat_completeness auto
termination
  by (relation "measure (\<lambda>(s, old, new). length s)") auto

text \<open>The loop of \<open>normalize\<close> over the synonym table; \<open>old in s\<close> is
  \<^const>\<open>sublist\<close>.\<close>

fun apply_synonyms :: "('a list \<times> 'a list) list \<Rightarrow> 'a list \<Rightarrow> 'a list" where
  "apply_synonyms [] s = s"
| "apply_synonyms ((old, new) # rules) s =
     apply_synonyms rules (if sublist old s then replace s old new else s)"

text \<open>\<open>normalize\<close>, named \<open>normalize_text\<close> here since the library has a constant
  of that name. The argument is optional, for \<open>s or ""\<close>: an absent value and the
  empty string both give the empty string.\<close>

definition normalize_text :: "string option \<Rightarrow> string" where
  "normalize_text s =
     apply_synonyms NORMALIZATION_SYNONYMS
       (lower (strip (case s of None \<Rightarrow> [] | Some t \<Rightarrow> if t = [] then [] else t)))"

subsection \<open>Normalization, on code points\<close>

text \<open>A \<open>str\<close> is a sequence of code points, and \<open>strip\<close> and \<open>lower\<close> work on
  all of them; here a string is a list of code points, each a natural number. The tables are
  those of the Unicode Character Database 14.0.0, which CPython 3.11 is built with.\<close>

text \<open>The code points \<open>c\<close> for which \<open>chr(c).isspace()\<close> holds: the characters of
  bidirectional type WS, B or S, and those of category Zs.\<close>

definition WHITESPACE :: "nat list" where
  "WHITESPACE =
    [0x9, 0xA, 0xB, 0xC, 0xD, 0x1C, 0x1D, 0x1E, 0x1F, 0x20, 0x85, 0xA0, 0x1680,
     0x2000, 0x2001, 0x2002, 0x2003, 0x2004, 0x2005, 0x2006, 0x2007, 0x2008, 0x2009, 0x200A,
     0x2028, 0x2029, 0x202F, 0x205F, 0x3000]"

definition py_isspace :: "nat \<Rightarrow> bool" where
  "py_isspace c = (c \<in> set WHITESPACE)"

text \<open>\<open>s.strip()\<close>: the whitespace is removed at both ends.\<close>

definition py_strip :: "nat list \<Rightarrow> nat list" where
  "py_strip s = rev (dropWhile py_isspace (rev (dropWhile py_isspace s)))"

text \<open>The lower case of a single code point, where it is another single code point, in
  runs: \<open>(lo, hi, step, target)\<close> maps \<open>lo\<close> to \<open>target\<close>, \<open>lo + step\<close> to
  \<open>target + step\<close> and so on up to \<open>hi\<close>. The runs are in increasing order and
  do not meet. U+03A3, the capital sigma, is not in the table.\<close>

definition LOWER_RUNS :: "(nat \<times> nat \<times> nat \<times> nat) list" where
  "LOWER_RUNS =
    [(0x41, 0x5A, 1, 0x61), (0xC0, 0xD6, 1, 0xE0), (0xD8, 0xDE, 1, 0xF8), (0x100, 0x12E, 2, 0x101),
     (0x132, 0x136, 2, 0x133), (0x139, 0x147, 2, 0x13A), (0x14A, 0x176, 2, 0x14B), (0x178, 0x178, 1, 0xFF),
     (0x179, 0x17D, 2, 0x17A), (0x181, 0x181, 1, 0x253), (0x182, 0x184, 2, 0x183), (0x186, 0x186, 1, 0x254),
     (0x187, 0x187, 1, 0x188), (0x189, 0x18A, 1, 0x256), (0x18B, 0x18B, 1, 0x18C), (0x18E, 0x18E, 1, 0x1DD),
     (0x18F, 0x18F, 1, 0x259), (0x190, 0x190, 1, 0x25B), (0x191, 0x191, 1, 0x192), (0x193, 0x193, 1, 0x260),
     (0x194, 0x194, 1, 0x263), (0x196, 0x196, 1, 0x269), (0x197, 0x197, 1, 0x268), (0x198, 0x198, 1, 0x199),
     (0x19C, 0x19C, 1, 0x26F), (0x19D, 0x19D, 1, 0x272), (0x19F, 0x19F, 1, 0x275), (0x1A0, 0x1A4, 2, 0x1A1),
     (0x1A6, 0x1A6, 1, 0x280), (0x1A7, 0x1A7, 1, 0x1A8), (0x1A9, 0x1A9, 1, 0x283), (0x1AC, 0x1AC, 1, 0x1AD),
     (0x1AE, 0x1AE, 1, 0x288), (0x1AF, 0x1AF, 1, 0x1B0), (0x1B1, 0x1B2, 1, 0x28A), (0x1B3, 0x1B5, 2, 0x1B4),
     (0x1B7, 0x1B7, 1, 0x292), (0x1B8, 0x1B8, 1, 0x1B9), (0x1BC, 0x1BC, 1, 0x1BD), (0x1C4, 0x1C4, 1, 0x1C6),
     (0x1C5, 0x1C5, 1, 0x1C6), (0x1C7, 0x1C7, 1, 0x1C9), (0x1C8, 0x1C8, 1, 0x1C9), (0x1CA, 0x1CA, 1, 0x1CC),
     (0x1CB, 0x1DB, 2, 0x1CC), (0x1DE, 0x1EE, 2, 0x1DF), (0x1F1, 0x1F1, 1, 0x1F3), (0x1F2, 0x1F4, 2, 0x1F3),
     (0x1F6, 0x1F6, 1, 0x195), (0x1F7, 0x1F7, 1, 0x1BF), (0x1F8, 0x21E, 2, 0x1F9), (0x220, 0x220, 1, 0x19E),
     (0x222, 0x232, 2, 0x223), (0x23A, 0x23A, 1, 0x2C65), (0x23B, 0x23B, 1, 0x23C), (0x23D, 0x23D, 1, 0x19A),
     (0x23E, 0x23E, 1, 0x2C66), (0x241, 0x241, 1, 0x242), (0x243, 0x243, 1, 0x180), (0x244, 0x244, 1, 0x289),
     (0x245, 0x245, 1, 0x28C), (0x246, 0x24E, 2, 0x247), (0x370, 0x372, 2, 0x371), (0x376, 0x376, 1, 0x377),
     (0x37F, 0x37F, 1, 0x3F3), (0x386, 0x386, 1, 0x3AC), (0x388, 0x38A, 1, 0x3AD), (0x38C, 0x38C, 1, 0x3CC),
     (0x38E, 0x38F, 1, 0x3CD), (0x391, 0x3A1, 1, 0x3B1), (0x3A4, 0x3AB, 1, 0x3C4), (0x3CF, 0x3CF, 1, 0x3D7),
     (0x3D8, 0x3EE, 2, 0x3D9), (0x3F4, 0x3F4, 1, 0x3B8), (0x3F7, 0x3F7, 1, 0x3F8), (0x3F9, 0x3F9, 1, 0x3F2),
     (0x3FA, 0x3FA, 1, 0x3FB), (0x3FD, 0x3FF, 1, 0x37B), (0x400, 0x40F, 1, 0x450), (0x410, 0x42F, 1, 0x430),
     (0x460, 0x480, 2, 0x461), (0x48A, 0x4BE, 2, 0x48B), (0x4C0, 0x4C0, 1, 0x4CF), (0x4C1, 0x4CD, 2, 0x4C2),
     (0x4D0, 0x52E, 2, 0x4D1), (0x531, 0x556, 1, 0x561), (0x10A0, 0x10C5, 1, 0x2D00), (0x10C7, 0x10C7, 1, 0x2D27),
     (0x10CD, 0x10CD, 1, 0x2D2D), (0x13A0, 0x13EF, 1, 0xAB70), (0x13F0, 0x13F5, 1, 0x13F8), (0x1C90, 0x1CBA, 1, 0x10D0),
     (0x1CBD, 0x1CBF, 1, 0x10FD), (0x1E00, 0x1E94, 2, 0x1E01), (0x1E9E, 0x1E9E, 1, 0xDF), (0x1EA0, 0x1EFE, 2, 0x1EA1),
     (0x1F08, 0x1F0F, 1, 0x1F00), (0x1F18, 0x1F1D, 1, 0x1F10), (0x1F28, 0x1F2F, 1, 0x1F20), (0x1F38, 0x1F3F, 1, 0x1F30),
     (0x1F48, 0x1F4D, 1, 0x1F40), (0x1F59, 0x1F5F, 2, 0x1F51), (0x1F68, 0x1F6F, 1, 0x1F60), (0x1F88, 0x1F8F, 1, 0x1F80),
     (0x1F98, 0x1F9F, 1, 0x1F90), (0x1FA8, 0x1FAF, 1, 0x1FA0), (0x1FB8, 0x1FB9, 1, 0x1FB0), (0x1FBA, 0x1FBB, 1, 0x1F70),
     (0x1FBC, 0x1FBC, 1, 0x1FB3), (0x1FC8, 0x1FCB, 1, 0x1F72), (0x1FCC, 0x1FCC, 1, 0x1FC3), (0x1FD8, 0x1FD9, 1, 0x1FD0),
     (0x1FDA, 0x1FDB, 1, 0x1F76), (0x1FE8, 0x1FE9, 1, 0x1FE0), (0x1FEA, 0x1FEB, 1, 0x1F7A), (0x1FEC, 0x1FEC, 1, 0x1FE5),
     (0x1FF8, 0x1FF9, 1, 0x1F78), (0x1FFA, 0x1FFB, 1, 0x1F7C), (0x1FFC, 0x1FFC, 1, 0x1FF3), (0x2126, 0x2126, 1, 0x3C9),
     (0x212A, 0x212A, 1, 0x6B), (0x212B, 0x212B, 1, 0xE5), (0x2132, 0x2132, 1, 0x214E), (0x2160, 0x216F, 1, 0x2170),
     (0x2183, 0x2183, 1, 0x2184), (0x24B6, 0x24CF, 1, 0x24D0), (0x2C00, 0x2C2F, 1, 0x2C30), (0x2C60, 0x2C60, 1, 0x2C61),
     (0x2C62, 0x2C62, 1, 0x26B), (0x2C63, 0x2C63, 1, 0x1D7D), (0x2C64, 0x2C64, 1, 0x27D), (0x2C67, 0x2C6B, 2, 0x2C68),
     (0x2C6D, 0x2C6D, 1, 0x251), (0x2C6E, 0x2C6E, 1, 0x271), (0x2C6F, 0x2C6F, 1, 0x250), (0x2C70, 0x2C70, 1, 0x252),
     (0x2C72, 0x2C72, 1, 0x2C73), (0x2C75, 0x2C75, 1, 0x2C76), (0x2C7E, 0x2C7F, 1, 0x23F), (0x2C80, 0x2CE2, 2, 0x2C81),
     (0x2CEB, 0x2CED, 2, 0x2CEC), (0x2CF2, 0x2CF2, 1, 0x2CF3), (0xA640, 0xA66C, 2, 0xA641), (0xA680, 0xA69A, 2, 0xA681),
     (0xA722, 0xA72E, 2, 0xA723), (0xA732, 0xA76E, 2, 0xA733), (0xA779, 0xA77B, 2, 0xA77A), (0xA77D, 0xA77D, 1, 0x1D79),
     (0xA77E, 0xA786, 2, 0xA77F), (0xA78B, 0xA78B, 1, 0xA78C), (0xA78D, 0xA78D, 1, 0x265), (0xA790, 0xA792, 2, 0xA791),
     (0xA796, 0xA7A8, 2, 0xA797), (0xA7AA, 0xA7AA, 1, 0x266), (0xA7AB, 0xA7AB, 1, 0x25C), (0xA7AC, 0xA7AC, 1, 0x261),
     (0xA7AD, 0xA7AD, 1, 0x26C), (0xA7AE, 0xA7AE, 1, 0x26A), (0xA7B0, 0xA7B0, 1, 0x29E), (0xA7B1, 0xA7B1, 1, 0x287),
     (0xA7B2, 0xA7B2, 1, 0x29D), (0xA7B3, 0xA7B3, 1, 0xAB53), (0xA7B4, 0xA7C2, 2, 0xA7B5), (0xA7C4, 0xA7C4, 1, 0xA794),
     (0xA7C5, 0xA7C5, 1, 0x282), (0xA7C6, 0xA7C6, 1, 0x1D8E), (0xA7C7, 0xA7C9, 2, 0xA7C8), (0xA7D0, 0xA7D0, 1, 0xA7D1),
     (0xA7D6, 0xA7D8, 2, 0xA7D7), (0xA7F5, 0xA7F5, 1, 0xA7F6), (0xFF21, 0xFF3A, 1, 0xFF41), (0x10400, 0x10427, 1, 0x10428),
     (0x104B0, 0x104D3, 1, 0x104D8), (0x10570, 0x10594, 2, 0x10597), (0x10571, 0x10579, 2, 0x10598), (0x1057D, 0x10589, 2, 0x105A4),
     (0x1058D, 0x10591, 2, 0x105B4), (0x10595, 0x10595, 1, 0x105BC), (0x10C80, 0x10CB2, 1, 0x10CC0), (0x118A0, 0x118BF, 1, 0x118C0),
     (0x16E40, 0x16E5F, 1, 0x16E60), (0x1E900, 0x1E921, 1, 0x1E922)]"

fun lower_run :: "(nat \<times> nat \<times> nat \<times> nat) list \<Rightarrow> nat \<Rightarrow> nat option" where
  "lower_run [] c = None"
| "lower_run ((lo, hi, step, target) # runs) c =
     (if c < lo then None
      else if c \<le> hi \<and> (c - lo) mod step = 0 then Some (target + (c - lo))
      else lower_run runs c)"

text \<open>The lower case of one code point outside of any context. U+0130, the capital I with
  a dot above, is the only code point whose lower case is two code points.\<close>

definition py_lower_char :: "nat \<Rightarrow> nat list" where
  "py_lower_char c =
     (if c = 0x130 then [0x69, 0x307]
      else case lower_run LOWER_RUNS c of Some l \<Rightarrow> [l] | None \<Rightarrow> [c])"

text \<open>The capital sigma becomes the final small sigma U+03C2 when a cased character comes
  before it and none after it, the case-ignorable characters in between not counting, and
  the small sigma U+03C3 otherwise. \<open>CASE_IGNORABLE\<close> has the case-ignorable code points
  as ranges in increasing order; \<open>CASED\<close> has the cased code points that are not
  case-ignorable, the only ones of which the rule asks whether they are cased.\<close>

definition CASE_IGNORABLE :: "(nat \<times> nat) list" where
  "CASE_IGNORABLE =
    [(0x27, 0x27), (0x2E, 0x2E), (0x3A, 0x3A), (0x5E, 0x5E), (0x60, 0x60), (0xA8, 0xA8),
     (0xAD, 0xAD), (0xAF, 0xAF), (0xB4, 0xB4), (0xB7, 0xB8), (0x2B0, 0x36F), (0x374, 0x375),
     (0x37A, 0x37A), (0x384, 0x385), (0x387, 0x387), (0x483, 0x489), (0x559, 0x559), (0x55F, 0x55F),
     (0x591, 0x5BD), (0x5BF, 0x5BF), (0x5C1, 0x5C2), (0x5C4, 0x5C5), (0x5C7, 0x5C7), (0x5F4, 0x5F4),
     (0x600, 0x605), (0x610, 0x61A), (0x61C, 0x61C), (0x640, 0x640), (0x64B, 0x65F), (0x670, 0x670),
     (0x6D6, 0x6DD), (0x6DF, 0x6E8), (0x6EA, 0x6ED), (0x70F, 0x70F), (0x711, 0x711), (0x730, 0x74A),
     (0x7A6, 0x7B0), (0x7EB, 0x7F5), (0x7FA, 0x7FA), (0x7FD, 0x7FD), (0x816, 0x82D), (0x859, 0x85B),
     (0x888, 0x888), (0x890, 0x891), (0x898, 0x89F), (0x8C9, 0x902), (0x93A, 0x93A), (0x93C, 0x93C),
     (0x941, 0x948), (0x94D, 0x94D), (0x951, 0x957), (0x962, 0x963), (0x971, 0x971), (0x981, 0x981),
     (0x9BC, 0x9BC), (0x9C1, 0x9C4), (0x9CD, 0x9CD), (0x9E2, 0x9E3), (0x9FE, 0x9FE), (0xA01, 0xA02),
     (0xA3C, 0xA3C), (0xA41, 0xA42), (0xA47, 0xA48), (0xA4B, 0xA4D), (0xA51, 0xA51), (0xA70, 0xA71),
     (0xA75, 0xA75), (0xA81, 0xA82), (0xABC, 0xABC), (0xAC1, 0xAC5), (0xAC7, 0xAC8), (0xACD, 0xACD),
     (0xAE2, 0xAE3), (0xAFA, 0xAFF), (0xB01, 0xB01), (0xB3C, 0xB3C), (0xB3F, 0xB3F), (0xB41, 0xB44),
     (0xB4D, 0xB4D), (0xB55, 0xB56), (0xB62, 0xB63), (0xB82, 0xB82), (0xBC0, 0xBC0), (0xBCD, 0xBCD),
     (0xC00, 0xC00), (0xC04, 0xC04), (0xC3C, 0xC3C), (0xC3E, 0xC40), (0xC46, 0xC48), (0xC4A, 0xC4D),
     (0xC55, 0xC56), (0xC62, 0xC63), (0xC81, 0xC81), (0xCBC, 0xCBC), (0xCBF, 0xCBF), (0xCC6, 0xCC6),
     (0xCCC, 0xCCD), (0xCE2, 0xCE3), (0xD00, 0xD01), (0xD3B, 0xD3C), (0xD41, 0xD44), (0xD4D, 0xD4D),
     (0xD62, 0xD63), (0xD81, 0xD81), (0xDCA, 0xDCA), (0xDD2, 0xDD4), (0xDD6, 0xDD6), (0xE31, 0xE31),
     (0xE34, 0xE3A), (0xE46, 0xE4E), (0xEB1, 0xEB1), (0xEB4, 0xEBC), (0xEC6, 0xEC6), (0xEC8, 0xECD),
     (0xF18, 0xF19), (0xF35, 0xF35), (0xF37, 0xF37), (0xF39, 0xF39), (0xF71, 0xF7E), (0xF80, 0xF84),
     (0xF86, 0xF87), (0xF8D, 0xF97), (0xF99, 0xFBC), (0xFC6, 0xFC6), (0x102D, 0x1030), (0x1032, 0x1037),
     (0x1039, 0x103A), (0x103D, 0x103E), (0x1058, 0x1059), (0x105E, 0x1060), (0x1071, 0x1074), (0x1082, 0x1082),
     (0x1085, 0x1086), (0x108D, 0x108D), (0x109D, 0x109D), (0x10FC, 0x10FC), (0x135D, 0x135F), (0x1712, 0x1714),
     (0x1732, 0x1733), (0x1752, 0x1753), (0x1772, 0x1773), (0x17B4, 0x17B5), (0x17B7, 0x17BD), (0x17C6, 0x17C6),
     (0x17C9, 0x17D3), (0x17D7, 0x17D7), (0x17DD, 0x17DD), (0x180B, 0x180F), (0x1843, 0x1843), (0x1885, 0x1886),
     (0x18A9, 0x18A9), (0x1920, 0x1922), (0x1927, 0x1928), (0x1932, 0x1932), (0x1939, 0x193B), (0x1A17, 0x1A18),
     (0x1A1B, 0x1A1B), (0x1A56, 0x1A56), (0x1A58, 0x1A5E), (0x1A60, 0x1A60), (0x1A62, 0x1A62), (0x1A65, 0x1A6C),
     (0x1A73, 0x1A7C), (0x1A7F, 0x1A7F), (0x1AA7, 0x1AA7), (0x1AB0, 0x1ACE), (0x1B00, 0x1B03), (0x1B34, 0x1B34),
     (0x1B36, 0x1B3A), (0x1B3C, 0x1B3C), (0x1B42, 0x1B42), (0x1B6B, 0x1B73), (0x1B80, 0x1B81), (0x1BA2, 0x1BA5),
     (0x1BA8, 0x1BA9), (0x1BAB, 0x1BAD), (0x1BE6, 0x1BE6), (0x1BE8, 0x1BE9), (0x1BED, 0x1BED), (0x1BEF, 0x1BF1),
     (0x1C2C, 0x1C33), (0x1C36, 0x1C37), (0x1C78, 0x1C7D), (0x1CD0, 0x1CD2), (0x1CD4, 0x1CE0), (0x1CE2, 0x1CE8),
     (0x1CED, 0x1CED), (0x1CF4, 0x1CF4), (0x1CF8, 0x1CF9), (0x1D2C, 0x1D6A), (0x1D78, 0x1D78), (0x1D9B, 0x1DFF),
     (0x1FBD, 0x1FBD), (0x1FBF, 0x1FC1), (0x1FCD, 0x1FCF), (0x1FDD, 0x1FDF), (0x1FED, 0x1FEF), (0x1FFD, 0x1FFE),
     (0x200B, 0x200F), (0x2018, 0x2019), (0x2024, 0x2024), (0x2027, 0x2027), (0x202A, 0x202E), (0x2060, 0x2064),
     (0x2066, 0x206F), (0x2071, 0x2071), (0x207F, 0x207F), (0x2090, 0x209C), (0x20D0, 0x20F0), (0x2C7C, 0x2C7D),
     (0x2CEF, 0x2CF1), (0x2D6F, 0x2D6F), (0x2D7F, 0x2D7F), (0x2DE0, 0x2DFF), (0x2E2F, 0x2E2F), (0x3005, 0x3005),
     (0x302A, 0x302D), (0x3031, 0x3035), (0x303B, 0x303B), (0x3099, 0x309E), (0x30FC, 0x30FE), (0xA015, 0xA015),
     (0xA4F8, 0xA4FD), (0xA60C, 0xA60C), (0xA66F, 0xA672), (0xA674, 0xA67D), (0xA67F, 0xA67F), (0xA69C, 0xA69F),
     (0xA6F0, 0xA6F1), (0xA700, 0xA721), (0xA770, 0xA770), (0xA788, 0xA78A), (0xA7F2, 0xA7F4), (0xA7F8, 0xA7F9),
     (0xA802, 0xA802), (0xA806, 0xA806), (0xA80B, 0xA80B), (0xA825, 0xA826), (0xA82C, 0xA82C), (0xA8C4, 0xA8C5),
     (0xA8E0, 0xA8F1), (0xA8FF, 0xA8FF), (0xA926, 0xA92D), (0xA947, 0xA951), (0xA980, 0xA982), (0xA9B3, 0xA9B3),
     (0xA9B6, 0xA9B9), (0xA9BC, 0xA9BD), (0xA9CF, 0xA9CF), (0xA9E5, 0xA9E6), (0xAA29, 0xAA2E), (0xAA31, 0xAA32),
     (0xAA35, 0xAA36), (0xAA43, 0xAA43), (0xAA4C, 0xAA4C), (0xAA70, 0xAA70), (0xAA7C, 0xAA7C), (0xAAB0, 0xAAB0),
     (0xAAB2, 0xAAB4), (0xAAB7, 0xAAB8), (0xAABE, 0xAABF), (0xAAC1, 0xAAC1), (0xAADD, 0xAADD), (0xAAEC, 0xAAED),
     (0xAAF3, 0xAAF4), (0xAAF6, 0xAAF6), (0xAB5B, 0xAB5F), (0xAB69, 0xAB6B), (0xABE5, 0xABE5), (0xABE8, 0xABE8),
     (0xABED, 0xABED), (0xFB1E, 0xFB1E), (0xFBB2, 0xFBC2), (0xFE00, 0xFE0F), (0xFE13, 0xFE13), (0xFE20, 0xFE2F),
     (0xFE52, 0xFE52), (0xFE55, 0xFE55), (0xFEFF, 0xFEFF), (0xFF07, 0xFF07), (0xFF0E, 0xFF0E), (0xFF1A, 0xFF1A),
     (0xFF3E, 0xFF3E), (0xFF40, 0xFF40), (0xFF70, 0xFF70), (0xFF9E, 0xFF9F), (0xFFE3, 0xFFE3), (0xFFF9, 0xFFFB),
     (0x101FD, 0x101FD), (0x102E0, 0x102E0), (0x10376, 0x1037A), (0x10780, 0x10785), (0x10787, 0x107B0), (0x107B2, 0x107BA),
     (0x10A01, 0x10A03), (0x10A05, 0x10A06), (0x10A0C, 0x10A0F), (0x10A38, 0x10A3A), (0x10A3F, 0x10A3F), (0x10AE5, 0x10AE6),
     (0x10D24, 0x10D27), (0x10EAB, 0x10EAC), (0x10F46, 0x10F50), (0x10F82, 0x10F85), (0x11001, 0x11001), (0x11038, 0x11046),
     (0x11070, 0x11070), (0x11073, 0x11074), (0x1107F, 0x11081), (0x110B3, 0x110B6), (0x110B9, 0x110BA), (0x110BD, 0x110BD),
     (0x110C2, 0x110C2), (0x110CD, 0x110CD), (0x11100, 0x11102), (0x11127, 0x1112B), (0x1112D, 0x11134), (0x11173, 0x11173),
     (0x11180, 0x11181), (0x111B6, 0x111BE), (0x111C9, 0x111CC), (0x111CF, 0x111CF), (0x1122F, 0x11231), (0x11234, 0x11234),
     (0x11236, 0x11237), (0x1123E, 0x1123E), (0x112DF, 0x112DF), (0x112E3, 0x112EA), (0x11300, 0x11301), (0x1133B, 0x1133C),
     (0x11340, 0x11340), (0x11366, 0x1136C), (0x11370, 0x11374), (0x11438, 0x1143F), (0x11442, 0x11444), (0x11446, 0x11446),
     (0x1145E, 0x1145E), (0x114B3, 0x114B8), (0x114BA, 0x114BA), (0x114BF, 0x114C0), (0x114C2, 0x114C3), (0x115B2, 0x115B5),
     (0x115BC, 0x115BD), (0x115BF, 0x115C0), (0x115DC, 0x115DD), (0x11633, 0x1163A), (0x1163D, 0x1163D), (0x1163F, 0x11640),
     (0x116AB, 0x116AB), (0x116AD, 0x116AD), (0x116B0, 0x116B5), (0x116B7, 0x116B7), (0x1171D, 0x1171F), (0x11722, 0x11725),
     (0x11727, 0x1172B), (0x1182F, 0x11837), (0x11839, 0x1183A), (0x1193B, 0x1193C), (0x1193E, 0x1193E), (0x11943, 0x11943),
     (0x119D4, 0x119D7), (0x119DA, 0x119DB), (0x119E0, 0x119E0), (0x11A01, 0x11A0A), (0x11A33, 0x11A38), (0x11A3B, 0x11A3E),
     (0x11A47, 0x11A47), (0x11A51, 0x11A56), (0x11A59, 0x11A5B), (0x11A8A, 0x11A96), (0x11A98, 0x11A99), (0x11C30, 0x11C36),
     (0x11C38, 0x11C3D), (0x11C3F, 0x11C3F), (0x11C92, 0x11CA7), (0x11CAA, 0x11CB0), (0x11CB2, 0x11CB3), (0x11CB5, 0x11CB6),
     (0x11D31, 0x11D36), (0x11D3A, 0x11D3A), (0x11D3C, 0x11D3D), (0x11D3F, 0x11D45), (0x11D47, 0x11D47), (0x11D90, 0x11D91),
     (0x11D95, 0x11D95), (0x11D97, 0x11D97), (0x11EF3, 0x11EF4), (0x13430, 0x13438), (0x16AF0, 0x16AF4), (0x16B30, 0x16B36),
     (0x16B40, 0x16B43), (0x16F4F, 0x16F4F), (0x16F8F, 0x16F9F), (0x16FE0, 0x16FE1), (0x16FE3, 0x16FE4), (0x1AFF0, 0x1AFF3),
     (0x1AFF5, 0x1AFFB), (0x1AFFD, 0x1AFFE), (0x1BC9D, 0x1BC9E), (0x1BCA0, 0x1BCA3), (0x1CF00, 0x1CF2D), (0x1CF30, 0x1CF46),
     (0x1D167, 0x1D169), (0x1D173, 0x1D182), (0x1D185, 0x1D18B), (0x1D1AA, 0x1D1AD), (0x1D242, 0x1D244), (0x1DA00, 0x1DA36),
     (0x1DA3B, 0x1DA6C), (0x1DA75, 0x1DA75), (0x1DA84, 0x1DA84), (0x1DA9B, 0x1DA9F), (0x1DAA1, 0x1DAAF), (0x1E000, 0x1E006),
     (0x1E008, 0x1E018), (0x1E01B, 0x1E021), (0x1E023, 0x1E024), (0x1E026, 0x1E02A), (0x1E130, 0x1E13D), (0x1E2AE, 0x1E2AE),
     (0x1E2EC, 0x1E2EF), (0x1E8D0, 0x1E8D6), (0x1E944, 0x1E94B), (0x1F3FB, 0x1F3FF), (0xE0001, 0xE0001), (0xE0020, 0xE007F),
     (0xE0100, 0xE01EF)]"

definition CASED :: "(nat \<times> nat) list" where
  "CASED =
    [(0x41, 0x5A), (0x61, 0x7A), (0xAA, 0xAA), (0xB5, 0xB5), (0xBA, 0xBA), (0xC0, 0xD6),
     (0xD8, 0xF6), (0xF8, 0x1BA), (0x1BC, 0x1BF), (0x1C4, 0x293), (0x295, 0x2AF), (0x370, 0x373),
     (0x376, 0x377), (0x37B, 0x37D), (0x37F, 0x37F), (0x386, 0x386), (0x388, 0x38A), (0x38C, 0x38C),
     (0x38E, 0x3A1), (0x3A3, 0x3F5), (0x3F7, 0x481), (0x48A, 0x52F), (0x531, 0x556), (0x560, 0x588),
     (0x10A0, 0x10C5), (0x10C7, 0x10C7), (0x10CD, 0x10CD), (0x10D0, 0x10FA), (0x10FD, 0x10FF), (0x13A0, 0x13F5),
     (0x13F8, 0x13FD), (0x1C80, 0x1C88), (0x1C90, 0x1CBA), (0x1CBD, 0x1CBF), (0x1D00, 0x1D2B), (0x1D6B, 0x1D77),
     (0x1D79, 0x1D9A), (0x1E00, 0x1F15), (0x1F18, 0x1F1D), (0x1F20, 0x1F45), (0x1F48, 0x1F4D), (0x1F50, 0x1F57),
     (0x1F59, 0x1F59), (0x1F5B, 0x1F5B), (0x1F5D, 0x1F5D), (0x1F5F, 0x1F7D), (0x1F80, 0x1FB4), (0x1FB6, 0x1FBC),
     (0x1FBE, 0x1FBE), (0x1FC2, 0x1FC4), (0x1FC6, 0x1FCC), (0x1FD0, 0x1FD3), (0x1FD6, 0x1FDB), (0x1FE0, 0x1FEC),
     (0x1FF2, 0x1FF4), (0x1FF6, 0x1FFC), (0x2102, 0x2102), (0x2107, 0x2107), (0x210A, 0x2113), (0x2115, 0x2115),
     (0x2119, 0x211D), (0x2124, 0x2124), (0x2126, 0x2126), (0x2128, 0x2128), (0x212A, 0x212D), (0x212F, 0x2134),
     (0x2139, 0x2139), (0x213C, 0x213F), (0x2145, 0x2149), (0x214E, 0x214E), (0x2160, 0x217F), (0x2183, 0x2184),
     (0x24B6, 0x24E9), (0x2C00, 0x2C7B), (0x2C7E, 0x2CE4), (0x2CEB, 0x2CEE), (0x2CF2, 0x2CF3), (0x2D00, 0x2D25),
     (0x2D27, 0x2D27), (0x2D2D, 0x2D2D), (0xA640, 0xA66D), (0xA680, 0xA69B), (0xA722, 0xA76F), (0xA771, 0xA787),
     (0xA78B, 0xA78E), (0xA790, 0xA7CA), (0xA7D0, 0xA7D1), (0xA7D3, 0xA7D3), (0xA7D5, 0xA7D9), (0xA7F5, 0xA7F6),
     (0xA7FA, 0xA7FA), (0xAB30, 0xAB5A), (0xAB60, 0xAB68), (0xAB70, 0xABBF), (0xFB00, 0xFB06), (0xFB13, 0xFB17),
     (0xFF21, 0xFF3A), (0xFF41, 0xFF5A), (0x10400, 0x1044F), (0x104B0, 0x104D3), (0x104D8, 0x104FB), (0x10570, 0x1057A),
     (0x1057C, 0x1058A), (0x1058C, 0x10592), (0x10594, 0x10595), (0x10597, 0x105A1), (0x105A3, 0x105B1), (0x105B3, 0x105B9),
     (0x105BB, 0x105BC), (0x10C80, 0x10CB2), (0x10CC0, 0x10CF2), (0x118A0, 0x118DF), (0x16E40, 0x16E7F), (0x1D400, 0x1D454),
     (0x1D456, 0x1D49C), (0x1D49E, 0x1D49F), (0x1D4A2, 0x1D4A2), (0x1D4A5, 0x1D4A6), (0x1D4A9, 0x1D4AC), (0x1D4AE, 0x1D4B9),
     (0x1D4BB, 0x1D4BB), (0x1D4BD, 0x1D4C3), (0x1D4C5, 0x1D505), (0x1D507, 0x1D50A), (0x1D50D, 0x1D514), (0x1D516, 0x1D51C),
     (0x1D51E, 0x1D539), (0x1D53B, 0x1D53E), (0x1D540, 0x1D544), (0x1D546, 0x1D546), (0x1D54A, 0x1D550), (0x1D552, 0x1D6A5),
     (0x1D6A8, 0x1D6C0), (0x1D6C2, 0x1D6DA), (0x1D6DC, 0x1D6FA), (0x1D6FC, 0x1D714), (0x1D716, 0x1D734), (0x1D736, 0x1D74E),
     (0x1D750, 0x1D76E), (0x1D770, 0x1D788), (0x1D78A, 0x1D7A8), (0x1D7AA, 0x1D7C2), (0x1D7C4, 0x1D7CB), (0x1DF00, 0x1DF09),
     (0x1DF0B, 0x1DF1E), (0x1E900, 0x1E943), (0x1F130, 0x1F149), (0x1F150, 0x1F169), (0x1F170, 0x1F189)]"

fun in_ranges :: "(nat \<times> nat) list \<Rightarrow> nat \<Rightarrow> bool" where
  "in_ranges [] c = False"
| "in_ranges ((lo, hi) # ranges) c =
     (if c < lo then False else if c \<le> hi then True else in_ranges ranges c)"

definition case_ignorable :: "nat \<Rightarrow> bool" where
  "case_ignorable c = in_ranges CASE_IGNORABLE c"

definition cased :: "nat \<Rightarrow> bool" where
  "cased c = in_ranges CASED c"

text \<open>After the sigma: the first character that is not case-ignorable exists and is
  cased.\<close>

definition cased_follows :: "nat list \<Rightarrow> bool" where
  "cased_follows s = (case dropWhile case_ignorable s of [] \<Rightarrow> False | c # _ \<Rightarrow> cased c)"

text \<open>\<open>s.lower()\<close>, from the left; \<open>seen\<close> says that the last character so far that
  is not case-ignorable is cased.\<close>

fun lower_from :: "bool \<Rightarrow> nat list \<Rightarrow> nat list" where
  "lower_from seen [] = []"
| "lower_from seen (c # cs) =
     (if c = 0x3A3 then
        (if seen \<and> \<not> cased_follows cs then 0x3C2 else 0x3C3) # lower_from True cs
      else py_lower_char c @ lower_from (if case_ignorable c then seen else cased c) cs)"

definition py_lower :: "nat list \<Rightarrow> nat list" where
  "py_lower s = lower_from False s"

text \<open>The code points of a string of the byte-level model, and the synonym table as
  code points: its twelve strings are ASCII.\<close>

definition code_points :: "string \<Rightarrow> nat list" where
  "code_points s = map of_char s"

definition SYNONYMS :: "(nat list \<times> nat list) list" where
  "SYNONYMS = map (\<lambda>(old, new). (code_points old, code_points new)) NORMALIZATION_SYNONYMS"

text \<open>\<open>normalize\<close> on code points.\<close>

definition normalize_unicode :: "nat list option \<Rightarrow> nat list" where
  "normalize_unicode s =
     apply_synonyms SYNONYMS
       (py_lower (py_strip (case s of None \<Rightarrow> [] | Some t \<Rightarrow> if t = [] then [] else t)))"

subsection \<open>Scoring\<close>

definition WEIGHTS :: "(string \<times> real) list" where
  "WEIGHTS = [(''host'', 0.45), (''adjacent'', 0.35), (''exposure'', 0.20)]"

text \<open>\<open>WEIGHTS[key]\<close>.\<close>

definition weight :: "string \<Rightarrow> real" where
  "weight key = the (map_of WEIGHTS key)"

text \<open>The three comparisons of \<open>score_match\<close>; each takes \<open>total_score\<close> and
  \<open>reasons\<close> and returns them updated.\<close>

definition host_comparison :: "NormInput \<Rightarrow> Detail \<Rightarrow> real \<times> string list \<Rightarrow> real \<times> string list" where
  "host_comparison input_normalized detail st =
     (let (total_score, reasons) = st;
          host_input = in_host input_normalized;
          host_detail = normalize_text (Some (dict_get (d_host detail) ''''))
      in if host_input = host_detail \<and> host_input \<noteq> [] then
           (total_score + weight ''host'' * 1.0, reasons @ [''Exact match on host''])
         else if host_input \<noteq> [] \<and> host_detail \<noteq> []
                 \<and> (sublist host_input host_detail \<or> sublist host_detail host_input) then
           (total_score + weight ''host'' * 0.6, reasons @ [''Partial match on host''])
         else (total_score, reasons @ [''Host differs'']))"

definition adjacent_comparison :: "NormInput \<Rightarrow> Detail \<Rightarrow> real \<times> string list \<Rightarrow> real \<times> string list" where
  "adjacent_comparison input_normalized detail st =
     (let (total_score, reasons) = st;
          adj_input = in_adjacent input_normalized;
          adj_detail = normalize_text (Some (dict_get (d_adjacent detail) ''''))
      in if adj_input = adj_detail \<and> adj_input \<noteq> [] then
           (total_score + weight ''adjacent'' * 1.0, reasons @ [''Exact match on adjacent element''])
         else if adj_input \<noteq> [] \<and> adj_detail \<noteq> []
                 \<and> (sublist adj_input adj_detail \<or> sublist adj_detail adj_input) then
           (total_score + weight ''adjacent'' * 0.6, reasons @ [''Partial match on adjacent element''])
         else (total_score, reasons @ [''Adjacent element differs'']))"

definition exposure_comparison :: "NormInput \<Rightarrow> Detail \<Rightarrow> real \<times> string list \<Rightarrow> real \<times> string list" where
  "exposure_comparison input_normalized detail st =
     (let (total_score, reasons) = st;
          exp_input = in_exposure input_normalized;
          exp_detail = normalize_text (Some (dict_get (d_exposure detail) ''''))
      in if exp_input = exp_detail \<and> exp_input \<noteq> [] then
           (total_score + weight ''exposure'' * 1.0, reasons @ [''Exact match on exposure''])
         else if exp_input \<noteq> [] \<and> exp_detail \<noteq> [] then
           (total_score,
            reasons @ [''Exposure differs (input='' @ exp_input @ '', detail='' @ exp_detail @ '')''])
         else (total_score, reasons @ [''Exposure unknown'']))"

definition score_match :: "NormInput \<Rightarrow> Detail \<Rightarrow> real \<times> string list" where
  "score_match input_normalized detail =
     (let (total_score, reasons) =
            exposure_comparison input_normalized detail
              (adjacent_comparison input_normalized detail
                (host_comparison input_normalized detail (0.0, [])));
          total_score = max 0.0 (min total_score 1.0)
      in (total_score, reasons))"

subsection \<open>The match endpoint\<close>

text \<open>\<open>sep.join(xs)\<close>.\<close>

fun join :: "string \<Rightarrow> string list \<Rightarrow> string" where
  "join sep [] = []"
| "join sep [x] = x"
| "join sep (x # y # ys) = x @ sep @ join sep (y # ys)"

text \<open>\<open>round(x, ndigits)\<close>: to the nearest multiple of \<open>10\<^sup>-\<^sup>n\<close>, a tie to the even
  one.\<close>

definition py_round :: "real \<Rightarrow> nat \<Rightarrow> real" where
  "py_round x ndigits =
     (let y = x * 10 ^ ndigits; f = \<lfloor>y\<rfloor>; d = y - of_int f
      in of_int (if d < 1 / 2 then f else if 1 / 2 < d then f + 1
                 else if even f then f else f + 1) / 10 ^ ndigits)"

text \<open>The loop over the library: the state is \<open>best\<close>, \<open>best_score\<close> and
  \<open>best_reasons\<close>.\<close>

fun score_every :: "NormInput \<Rightarrow> Detail list \<Rightarrow> Detail option \<times> real \<times> string list
    \<Rightarrow> Detail option \<times> real \<times> string list" where
  "score_every input_norm [] st = st"
| "score_every input_norm (d # ds) (best, best_score, best_reasons) =
     (let (s, reasons) = score_match input_norm d
      in if s > best_score then score_every input_norm ds (Some d, s, reasons)
         else score_every input_norm ds (best, best_score, best_reasons))"

text \<open>The dictionary \<open>input_norm\<close> of \<open>match_detail\<close>.\<close>

definition input_norm :: "MatchInput \<Rightarrow> NormInput" where
  "input_norm payload =
     \<lparr>in_host = normalize_text (Some (host_element payload)),
      in_adjacent = normalize_text (Some (adjacent_element payload)),
      in_exposure = normalize_text (Some (exposure payload))\<rparr>"

text \<open>The loop from its initial state: \<open>best = None\<close>, \<open>best_score = -1.0\<close> and
  \<open>best_reasons = []\<close>.\<close>

definition best_of :: "Detail list \<Rightarrow> MatchInput \<Rightarrow> Detail option \<times> real \<times> string list" where
  "best_of library payload = score_every (input_norm payload) library (None, - 1.0, [])"

definition match_with :: "Detail list \<Rightarrow> MatchInput \<Rightarrow> MatchOutput" where
  "match_with library payload =
     (let (best, best_score, best_reasons) = best_of library payload
      in case best of
           None \<Rightarrow> \<lparr>suggested_detail = ''No match found'', confidence = 0.0,
                    reason = ''No samples available''\<rparr>
         | Some b \<Rightarrow>
             (let confidence = py_round best_score 2;
                  reason_text =
                    (if confidence \<ge> 0.85 then ''High confidence: '' @ join ''; '' best_reasons
                     else if confidence \<ge> 0.5 then ''Medium confidence: '' @ join ''; '' best_reasons
                     else ''Low confidence: '' @ join ''; '' best_reasons)
              in \<lparr>suggested_detail = d_title b, confidence = confidence, reason = reason_text\<rparr>))"

definition match_detail :: "MatchInput \<Rightarrow> MatchOutput" where
  "match_detail payload = match_with SAMPLE_DETAILS payload"

section \<open>The specification's wording\<close>

text \<open>The definitions of this section follow the specification, not the source; the
  theorems below compare them with the embedding.\<close>

text \<open>The normalized value of a field of a detail.\<close>

definition detail_value :: "string option \<Rightarrow> string" where
  "detail_value v = normalize_text (Some (dict_get v ''''))"

text \<open>The contribution of the host or adjacent field (section 4.2): the full weight on
  an exact match of a non-empty query value, 0.6 of it when both values are non-empty and
  one is a substring of the other, nothing otherwise.\<close>

definition field_contribution :: "real \<Rightarrow> string \<Rightarrow> string \<Rightarrow> real" where
  "field_contribution w query_value record_value =
     (if query_value = record_value \<and> query_value \<noteq> [] then w
      else if query_value \<noteq> [] \<and> record_value \<noteq> []
              \<and> (sublist query_value record_value \<or> sublist record_value query_value)
           then 0.6 * w
      else 0)"

text \<open>The contribution of the exposure field: no partial credit.\<close>

definition exposure_contribution :: "real \<Rightarrow> string \<Rightarrow> string \<Rightarrow> real" where
  "exposure_contribution w query_value record_value =
     (if query_value = record_value \<and> query_value \<noteq> [] then w else 0)"

text \<open>The reason of the host or adjacent field; \<open>name\<close> is the field as the reasons
  spell it and \<open>Name\<close> the same, capitalised.\<close>

definition field_reason :: "string \<Rightarrow> string \<Rightarrow> string \<Rightarrow> string \<Rightarrow> string" where
  "field_reason Name name query_value record_value =
     (if query_value = record_value \<and> query_value \<noteq> [] then ''Exact match on '' @ name
      else if query_value \<noteq> [] \<and> record_value \<noteq> []
              \<and> (sublist query_value record_value \<or> sublist record_value query_value)
           then ''Partial match on '' @ name
      else Name @ '' differs'')"

definition exposure_reason :: "string \<Rightarrow> string \<Rightarrow> string" where
  "exposure_reason query_value record_value =
     (if query_value = record_value \<and> query_value \<noteq> [] then ''Exact match on exposure''
      else if query_value \<noteq> [] \<and> record_value \<noteq> []
           then ''Exposure differs (input='' @ query_value @ '', detail='' @ record_value @ '')''
      else ''Exposure unknown'')"

text \<open>The bucket of a score.\<close>

definition confidence_prefix :: "real \<Rightarrow> string" where
  "confidence_prefix score =
     (if score \<ge> 0.85 then ''High confidence: ''
      else if score \<ge> 0.5 \<and> score < 0.85 then ''Medium confidence: ''
      else ''Low confidence: '')"

subsection \<open>The normalizer, as the specification words it\<close>

text \<open>Section 4.1: trim, lowercase, then each rule of the table in order, every rule
  replacing all the occurrences of its pattern. "All occurrences" is read from the left:
  the first occurrence is replaced and the search goes on behind it.\<close>

text \<open>The pattern occurs in \<open>s\<close> at index \<open>i\<close>.\<close>

definition occurs_at :: "'a list \<Rightarrow> 'a list \<Rightarrow> nat \<Rightarrow> bool" where
  "occurs_at pattern s i = (take (length pattern) (drop i s) = pattern)"

text \<open>The least index at which the pattern occurs, if any. The specification says
  nothing of an empty pattern, and the table has none: \<open>replace_all_occurrences\<close>
  leaves the string as it is then.\<close>

definition first_occurrence :: "'a list \<Rightarrow> 'a list \<Rightarrow> nat option" where
  "first_occurrence pattern s = find (occurs_at pattern s) [0..<Suc (length s)]"

function replace_all_occurrences :: "'a list \<Rightarrow> 'a list \<Rightarrow> 'a list \<Rightarrow> 'a list" where
  "replace_all_occurrences pattern replacement s =
     (if pattern = [] then s
      else case first_occurrence pattern s of
             None \<Rightarrow> s
           | Some i \<Rightarrow> take i s @ replacement
                        @ replace_all_occurrences pattern replacement (drop (i + length pattern) s))"
  by pat_completeness auto
termination
proof (relation "measure (\<lambda>(pattern, replacement, s). length s)")
  show "wf (measure (\<lambda>(pattern, replacement, s). length s))" by simp
next
  fix pattern replacement :: "'a list" and s i
  assume ne: "pattern \<noteq> []" and f: "first_occurrence pattern s = Some i"
  from f have "occurs_at pattern s i"
    by (auto simp: first_occurrence_def find_Some_iff)
  then have "length (take (length pattern) (drop i s)) = length pattern"
    by (simp add: occurs_at_def)
  with ne have "length (drop (i + length pattern) s) < length s"
    by (cases pattern) (auto simp: min_def split: if_splits)
  then show "((pattern, replacement, drop (i + length pattern) s), (pattern, replacement, s))
      \<in> measure (\<lambda>(pattern, replacement, s). length s)"
    by simp
qed

fun apply_rules :: "('a list \<times> 'a list) list \<Rightarrow> 'a list \<Rightarrow> 'a list" where
  "apply_rules [] s = s"
| "apply_rules ((pattern, replacement) # rules) s =
     apply_rules rules (replace_all_occurrences pattern replacement s)"

text \<open>Whitespace, as the language has it: the ASCII controls from the tab to the carriage
  return and from the file separator to the unit separator, the space, the next line, the
  no-break space, and the spaces and the line and paragraph separators beyond Latin-1.\<close>

definition whitespace :: "nat \<Rightarrow> bool" where
  "whitespace c =
     ((0x9 \<le> c \<and> c \<le> 0xD) \<or> (0x1C \<le> c \<and> c \<le> 0x20) \<or> c = 0x85 \<or> c = 0xA0
      \<or> c = 0x1680 \<or> (0x2000 \<le> c \<and> c \<le> 0x200A) \<or> c = 0x2028 \<or> c = 0x2029
      \<or> c = 0x202F \<or> c = 0x205F \<or> c = 0x3000)"

text \<open>Trimming: the string without its leading and its trailing whitespace, as a slice.
  In a string of whitespace only, the two runs are the whole string and nothing is left.\<close>

definition trim :: "nat list \<Rightarrow> nat list" where
  "trim s =
     (let leading = length (takeWhile whitespace s);
          trailing = length (takeWhile whitespace (rev s))
      in take (length s - leading - trailing) (drop leading s))"

text \<open>The normalizer: an absent value is the empty string; the string is trimmed, put in
  lower case, and the rules are applied. The specification says no more of the lower case
  than the word, which is \<open>str.lower\<close>.\<close>

definition normalize_spec :: "nat list option \<Rightarrow> nat list" where
  "normalize_spec v =
     apply_rules SYNONYMS (py_lower (trim (case v of None \<Rightarrow> [] | Some s \<Rightarrow> s)))"

text \<open>The hypothesis of section 8 on the table: no replacement contains the pattern of a
  rule of the table.\<close>

definition no_replacement_triggers :: "(string \<times> string) list \<Rightarrow> bool" where
  "no_replacement_triggers rules =
     list_all (\<lambda>(old, new). list_all (\<lambda>(pattern, replacement). \<not> sublist pattern new) rules)
       rules"

section \<open>Predicates of the proofs\<close>

text \<open>\<open>no_overlap p new\<close>: no occurrence of \<open>p\<close> can share a character with an
  occurrence of \<open>new\<close>. No non-empty suffix of \<open>p\<close> is a prefix of \<open>new\<close> or has
  \<open>new\<close> as a prefix, and no non-empty suffix of \<open>new\<close> is a prefix of \<open>p\<close> or has
  \<open>p\<close> as a prefix.\<close>

definition no_overlap :: "string \<Rightarrow> string \<Rightarrow> bool" where
  "no_overlap p new =
     (list_all (\<lambda>q. q = [] \<or> (\<not> prefix q new \<and> \<not> prefix new q)) (suffixes p)
      \<and> list_all (\<lambda>t. t = [] \<or> (\<not> prefix t p \<and> \<not> prefix p t)) (suffixes new))"

text \<open>A string that \<open>strip\<close> leaves as it is, and one that \<open>lower\<close> leaves as it is.\<close>

definition trimmed :: "string \<Rightarrow> bool" where
  "trimmed s = (s = [] \<or> (\<not> isspace (hd s) \<and> \<not> isspace (last s)))"

definition lowered :: "string \<Rightarrow> bool" where
  "lowered s = list_all (\<lambda>c. lower_char c = c) s"

text \<open>A rule whose pattern is not empty and whose replacement is not empty, in lower case,
  and has no whitespace at either end.\<close>

definition clean_rule :: "string \<times> string \<Rightarrow> bool" where
  "clean_rule rule =
     (case rule of (old, new) \<Rightarrow>
        old \<noteq> [] \<and> new \<noteq> [] \<and> \<not> isspace (hd new) \<and> \<not> isspace (last new) \<and> lowered new)"

text \<open>\<open>rebuilds a old new\<close>: the pattern \<open>old\<close> is \<open>a\<close> followed by its own
  replacement \<open>new\<close>, so that replacing an \<open>old\<close> behind an \<open>a\<close> leaves an \<open>old\<close>;
  the five conditions on prefixes and suffixes say that this is the only way in which
  an \<open>old\<close> is left.\<close>

definition rebuilds :: "string \<Rightarrow> string \<Rightarrow> string \<Rightarrow> bool" where
  "rebuilds a old new =
     (a \<noteq> [] \<and> new \<noteq> [] \<and> old = a @ new
      \<and> list_all (\<lambda>t. t = [] \<or> \<not> prefix t (a @ old)) (suffixes old)
      \<and> list_all (\<lambda>t. t = [] \<or> \<not> prefix old (t @ old)) (suffixes a)
      \<and> list_all (\<lambda>t. t = [] \<or> \<not> prefix new (t @ new)) (suffixes a)
      \<and> list_all (\<lambda>t. t = [] \<or> t = new \<or> \<not> prefix t new) (suffixes new)
      \<and> list_all (\<lambda>t. t = [] \<or> \<not> prefix t old) (suffixes new))"

text \<open>A string of the byte-level model whose characters are all ASCII, the lower case
  of an ASCII code point, and the lower case of a code point of Latin-1: the letters A to Z
  and the accented capitals U+00C0 to U+00DE, the multiplication sign U+00D7 apart, are
  moved up by 0x20.\<close>

definition is_ascii :: "string \<Rightarrow> bool" where
  "is_ascii t = list_all (\<lambda>c. of_char c < (0x80::nat)) t"

definition ascii_lowercase :: "nat \<Rightarrow> nat" where
  "ascii_lowercase c = (if 0x41 \<le> c \<and> c \<le> 0x5A then c + 0x20 else c)"

definition latin1_lowercase :: "nat \<Rightarrow> nat" where
  "latin1_lowercase c =
     (if (0x41 \<le> c \<and> c \<le> 0x5A) \<or> (0xC0 \<le> c \<and> c \<le> 0xDE \<and> c \<noteq> 0xD7) then c + 0x20
      else c)"

section \<open>Lemmas\<close>

subsection \<open>Scores and reasons\<close>

lemma weight_host: "weight ''host'' = 0.45"
  by (simp add: weight_def WEIGHTS_def)

lemma weight_adjacent: "weight ''adjacent'' = 0.35"
  by (simp add: weight_def WEIGHTS_def)

lemma weight_exposure: "weight ''exposure'' = 0.2"
  by (simp add: weight_def WEIGHTS_def)

lemma host_comparison_eq:
  "host_comparison q d (t, rs) =
     (t + field_contribution 0.45 (in_host q) (detail_value (d_host d)),
      rs @ [field_reason ''Host'' ''host'' (in_host q) (detail_value (d_host d))])"
  by (simp add: host_comparison_def field_contribution_def field_reason_def detail_value_def
      weight_host Let_def)

lemma adjacent_comparison_eq:
  "adjacent_comparison q d (t, rs) =
     (t + field_contribution 0.35 (in_adjacent q) (detail_value (d_adjacent d)),
      rs @ [field_reason ''Adjacent element'' ''adjacent element'' (in_adjacent q)
              (detail_value (d_adjacent d))])"
  by (simp add: adjacent_comparison_def field_contribution_def field_reason_def detail_value_def
      weight_adjacent Let_def)

lemma exposure_comparison_eq:
  "exposure_comparison q d (t, rs) =
     (t + exposure_contribution 0.2 (in_exposure q) (detail_value (d_exposure d)),
      rs @ [exposure_reason (in_exposure q) (detail_value (d_exposure d))])"
  by (simp add: exposure_comparison_def exposure_contribution_def exposure_reason_def
      detail_value_def weight_exposure Let_def)

lemma score_match_eq:
  "score_match q d =
     (max 0 (min (field_contribution 0.45 (in_host q) (detail_value (d_host d))
                  + field_contribution 0.35 (in_adjacent q) (detail_value (d_adjacent d))
                  + exposure_contribution 0.2 (in_exposure q) (detail_value (d_exposure d))) 1),
      [field_reason ''Host'' ''host'' (in_host q) (detail_value (d_host d)),
       field_reason ''Adjacent element'' ''adjacent element'' (in_adjacent q)
         (detail_value (d_adjacent d)),
       exposure_reason (in_exposure q) (detail_value (d_exposure d))])"
  by (simp add: score_match_def host_comparison_eq adjacent_comparison_eq exposure_comparison_eq)

lemma score_match_bounds: "0 \<le> fst (score_match q d)" "fst (score_match q d) \<le> 1"
  by (simp_all add: score_match_eq)

lemma field_contribution_Ints:
  "w * 100 \<in> \<int> \<Longrightarrow> w * 60 \<in> \<int> \<Longrightarrow> field_contribution w a b * 100 \<in> \<int>"
  by (simp add: field_contribution_def mult.commute)

lemma exposure_contribution_Ints:
  "w * 100 \<in> \<int> \<Longrightarrow> exposure_contribution w a b * 100 \<in> \<int>"
  by (simp add: exposure_contribution_def)

lemma clamp_Ints:
  assumes "h * 100 \<in> \<int>" "a * 100 \<in> \<int>" "e * 100 \<in> \<int>"
  shows "max 0 (min (h + a + e) 1) * 100 \<in> \<int>"
proof -
  have "(h + a + e) * 100 = h * 100 + a * 100 + e * 100" by (simp add: algebra_simps)
  then have "(h + a + e) * 100 \<in> \<int>" using assms by (simp add: Ints_add)
  then show ?thesis by (simp add: max_def min_def)
qed

lemma score_match_hundredths: "fst (score_match q d) * 100 \<in> \<int>"
proof -
  have "field_contribution 0.45 (in_host q) (detail_value (d_host d)) * 100 \<in> \<int>"
    by (rule field_contribution_Ints) simp_all
  moreover have "field_contribution 0.35 (in_adjacent q) (detail_value (d_adjacent d)) * 100 \<in> \<int>"
    by (rule field_contribution_Ints) simp_all
  moreover have "exposure_contribution 0.2 (in_exposure q) (detail_value (d_exposure d)) * 100 \<in> \<int>"
    by (rule exposure_contribution_Ints) simp
  ultimately show ?thesis
    unfolding score_match_eq fst_conv by (rule clamp_Ints)
qed

lemma py_round_hundredths:
  assumes "x * 100 \<in> \<int>"
  shows "py_round x 2 = x"
proof -
  from assms obtain k :: int where k: "x * 100 = of_int k"
    by (auto elim: Ints_cases)
  then have "\<lfloor>x * 100\<rfloor> = k" by simp
  then have "py_round x 2 = of_int k / 100"
    using k by (simp add: py_round_def Let_def)
  also have "\<dots> = x" using k by simp
  finally show ?thesis .
qed

lemma py_round_score: "py_round (fst (score_match q d)) 2 = fst (score_match q d)"
  by (rule py_round_hundredths) (rule score_match_hundredths)

subsection \<open>The loop over the library\<close>

lemma score_every_no_better:
  "\<forall>d \<in> set ds. fst (score_match q d) \<le> bs \<Longrightarrow>
   score_every q ds (best, bs, brs) = (best, bs, brs)"
  by (induction ds) (auto split: prod.splits)

lemma score_every_first_max:
  "\<exists>d \<in> set ds. bs < fst (score_match q d) \<Longrightarrow>
   \<exists>i < length ds. score_every q ds (best, bs, brs) = (Some (ds ! i), score_match q (ds ! i))
      \<and> bs < fst (score_match q (ds ! i))
      \<and> (\<forall>j < length ds. fst (score_match q (ds ! j)) \<le> fst (score_match q (ds ! i)))
      \<and> (\<forall>j < i. fst (score_match q (ds ! j)) < fst (score_match q (ds ! i)))"
proof (induction ds arbitrary: best bs brs)
  case Nil
  then show ?case by simp
next
  case (Cons d ds)
  obtain s rs where sd: "score_match q d = (s, rs)" by (cases "score_match q d")
  show ?case
  proof (cases "bs < s")
    case True
    note better = True
    show ?thesis
    proof (cases "\<exists>e \<in> set ds. s < fst (score_match q e)")
      case True
      from Cons.IH [OF True, of "Some d" rs] obtain i where i: "i < length ds"
        "score_every q ds (Some d, s, rs) = (Some (ds ! i), score_match q (ds ! i))"
        "s < fst (score_match q (ds ! i))"
        "\<forall>j < length ds. fst (score_match q (ds ! j)) \<le> fst (score_match q (ds ! i))"
        "\<forall>j < i. fst (score_match q (ds ! j)) < fst (score_match q (ds ! i))"
        by blast
      have "Suc i < length (d # ds)" using i(1) by simp
      moreover have "score_every q (d # ds) (best, bs, brs) = (Some ((d # ds) ! Suc i), score_match q ((d # ds) ! Suc i))"
        using sd better i(2) by simp
      moreover have "bs < fst (score_match q ((d # ds) ! Suc i))"
        using better i(3) by simp
      moreover have "\<forall>j < length (d # ds). fst (score_match q ((d # ds) ! j)) \<le> fst (score_match q ((d # ds) ! Suc i))"
        using i(3,4) sd by (auto simp: nth_Cons split: nat.splits)
      moreover have "\<forall>j < Suc i. fst (score_match q ((d # ds) ! j)) < fst (score_match q ((d # ds) ! Suc i))"
        using i(3,5) sd by (auto simp: nth_Cons split: nat.splits)
      ultimately show ?thesis by blast
    next
      case False
      then have le: "\<forall>e \<in> set ds. fst (score_match q e) \<le> s" by auto
      have "score_every q (d # ds) (best, bs, brs) = (Some d, s, rs)"
        using sd better score_every_no_better [OF le] by simp
      moreover have "\<forall>j < length (d # ds). fst (score_match q ((d # ds) ! j)) \<le> s"
        using le sd by (auto simp: nth_Cons split: nat.splits)
      ultimately have "0 < length (d # ds) \<and> score_every q (d # ds) (best, bs, brs) = (Some ((d # ds) ! 0), score_match q ((d # ds) ! 0))
          \<and> bs < fst (score_match q ((d # ds) ! 0))
          \<and> (\<forall>j < length (d # ds). fst (score_match q ((d # ds) ! j)) \<le> fst (score_match q ((d # ds) ! 0)))
          \<and> (\<forall>j < 0. fst (score_match q ((d # ds) ! j)) < fst (score_match q ((d # ds) ! 0)))"
        using sd better by simp
      then show ?thesis by blast
    qed
  next
    case False
    then have ex: "\<exists>e \<in> set ds. bs < fst (score_match q e)"
      using Cons.prems sd by auto
    from Cons.IH [OF ex, of best brs] obtain i where i: "i < length ds"
      "score_every q ds (best, bs, brs) = (Some (ds ! i), score_match q (ds ! i))"
      "bs < fst (score_match q (ds ! i))"
      "\<forall>j < length ds. fst (score_match q (ds ! j)) \<le> fst (score_match q (ds ! i))"
      "\<forall>j < i. fst (score_match q (ds ! j)) < fst (score_match q (ds ! i))"
      by blast
    have "Suc i < length (d # ds)" using i(1) by simp
    moreover have "score_every q (d # ds) (best, bs, brs) = (Some ((d # ds) ! Suc i), score_match q ((d # ds) ! Suc i))"
      using sd False i(2) by simp
    moreover have "bs < fst (score_match q ((d # ds) ! Suc i))"
      using i(3) by simp
    moreover have "\<forall>j < length (d # ds). fst (score_match q ((d # ds) ! j)) \<le> fst (score_match q ((d # ds) ! Suc i))"
      using i(3,4) sd False by (auto simp: nth_Cons split: nat.splits)
    moreover have "\<forall>j < Suc i. fst (score_match q ((d # ds) ! j)) < fst (score_match q ((d # ds) ! Suc i))"
      using i(3,5) sd False by (auto simp: nth_Cons split: nat.splits)
    ultimately show ?thesis by blast
  qed
qed

lemma best_of_first_max:
  assumes "library \<noteq> []"
  shows "\<exists>i < length library.
      best_of library payload
        = (Some (library ! i), score_match (input_norm payload) (library ! i))
      \<and> (\<forall>j < length library. fst (score_match (input_norm payload) (library ! j))
            \<le> fst (score_match (input_norm payload) (library ! i)))
      \<and> (\<forall>j < i. fst (score_match (input_norm payload) (library ! j))
            < fst (score_match (input_norm payload) (library ! i)))"
proof -
  from assms obtain d where "d \<in> set library" by (cases library) auto
  moreover have "- 1 < fst (score_match (input_norm payload) d)"
    using score_match_bounds(1) [of "input_norm payload" d] by simp
  ultimately have "\<exists>d \<in> set library. - 1 < fst (score_match (input_norm payload) d)" by blast
  from score_every_first_max [OF this, of None "[]"] show ?thesis
    unfolding best_of_def by auto
qed

lemma match_with_best:
  assumes "best_of library payload = (Some b, score_match q d)"
  shows "match_with library payload =
     \<lparr>suggested_detail = d_title b, confidence = fst (score_match q d),
      reason = confidence_prefix (fst (score_match q d)) @ join ''; '' (snd (score_match q d))\<rparr>"
proof -
  obtain s rs where sd: "score_match q d = (s, rs)" by (cases "score_match q d")
  have r: "py_round s 2 = s" using py_round_score [of q d] sd by simp
  show ?thesis
    using assms by (simp add: match_with_def sd r confidence_prefix_def)
qed

subsection \<open>The shipped library\<close>

lemma shipped_values:
  "detail_value (d_host D_001) = ''external wall''"
  "detail_value (d_adjacent D_001) = ''slab''"
  "detail_value (d_exposure D_001) = ''external''"
  "detail_value (d_host D_002) = ''internal partition''"
  "detail_value (d_adjacent D_002) = ''slab''"
  "detail_value (d_exposure D_002) = ''internal''"
  "detail_value (d_host D_003) = ''curtain wall''"
  "detail_value (d_adjacent D_003) = ''cmu''"
  "detail_value (d_exposure D_003) = ''external''"
  "detail_value (d_host D_004) = ''roof edge''"
  "detail_value (d_adjacent D_004) = ''parapet''"
  "detail_value (d_exposure D_004) = ''external''"
  "detail_value (d_host D_005) = ''foundation wall''"
  "detail_value (d_adjacent D_005) = ''footing''"
  "detail_value (d_exposure D_005) = ''external''"
  by code_simp+

lemma exact_query_input:
  "input_norm \<lparr>host_element = ''external wall'', adjacent_element = ''slab'',
       exposure = ''external''\<rparr>
     = \<lparr>in_host = ''external wall'', in_adjacent = ''slab'', in_exposure = ''external''\<rparr>"
  by code_simp

lemma masonry_query_input:
  "input_norm \<lparr>host_element = ''masonry'', adjacent_element = ''sill'', exposure = ''external''\<rparr>
     = \<lparr>in_host = ''cmu'', in_adjacent = ''sill'', in_exposure = ''external''\<rparr>"
  by code_simp

lemma masonry_query_substrings:
  "\<not> sublist ''cmu'' ''external wall''" "\<not> sublist ''external wall'' ''cmu''"
  "\<not> sublist ''cmu'' ''internal partition''" "\<not> sublist ''internal partition'' ''cmu''"
  "\<not> sublist ''cmu'' ''curtain wall''" "\<not> sublist ''curtain wall'' ''cmu''"
  "\<not> sublist ''cmu'' ''roof edge''" "\<not> sublist ''roof edge'' ''cmu''"
  "\<not> sublist ''cmu'' ''foundation wall''" "\<not> sublist ''foundation wall'' ''cmu''"
  "\<not> sublist ''sill'' ''slab''" "\<not> sublist ''slab'' ''sill''"
  "\<not> sublist ''sill'' ''cmu''" "\<not> sublist ''cmu'' ''sill''"
  "\<not> sublist ''sill'' ''parapet''" "\<not> sublist ''parapet'' ''sill''"
  "\<not> sublist ''sill'' ''footing''" "\<not> sublist ''footing'' ''sill''"
  by code_simp+

lemma exact_query_score:
  "score_match \<lparr>in_host = ''external wall'', in_adjacent = ''slab'', in_exposure = ''external''\<rparr>
       D_001
     = (1, [''Exact match on host'', ''Exact match on adjacent element'',
            ''Exact match on exposure''])"
  by (simp add: score_match_eq shipped_values field_contribution_def exposure_contribution_def
      field_reason_def exposure_reason_def)

lemma masonry_query_scores:
  "score_match \<lparr>in_host = ''cmu'', in_adjacent = ''sill'', in_exposure = ''external''\<rparr> D_001
     = (0.2, [''Host differs'', ''Adjacent element differs'', ''Exact match on exposure''])"
  "score_match \<lparr>in_host = ''cmu'', in_adjacent = ''sill'', in_exposure = ''external''\<rparr> D_002
     = (0, [''Host differs'', ''Adjacent element differs'',
            ''Exposure differs (input=external, detail=internal)''])"
  "score_match \<lparr>in_host = ''cmu'', in_adjacent = ''sill'', in_exposure = ''external''\<rparr> D_003
     = (0.2, [''Host differs'', ''Adjacent element differs'', ''Exact match on exposure''])"
  "score_match \<lparr>in_host = ''cmu'', in_adjacent = ''sill'', in_exposure = ''external''\<rparr> D_004
     = (0.2, [''Host differs'', ''Adjacent element differs'', ''Exact match on exposure''])"
  "score_match \<lparr>in_host = ''cmu'', in_adjacent = ''sill'', in_exposure = ''external''\<rparr> D_005
     = (0.2, [''Host differs'', ''Adjacent element differs'', ''Exact match on exposure''])"
  by (simp_all add: score_match_eq shipped_values masonry_query_substrings
      field_contribution_def exposure_contribution_def field_reason_def exposure_reason_def)

lemma exact_query_best:
  "best_of SAMPLE_DETAILS
       \<lparr>host_element = ''external wall'', adjacent_element = ''slab'', exposure = ''external''\<rparr>
     = (Some D_001, 1,
        [''Exact match on host'', ''Exact match on adjacent element'', ''Exact match on exposure''])"
proof -
  let ?q = "\<lparr>in_host = ''external wall'', in_adjacent = ''slab'', in_exposure = ''external''\<rparr>"
  have "\<forall>e \<in> set [D_002, D_003, D_004, D_005]. fst (score_match ?q e) \<le> 1"
    using score_match_bounds(2) by blast
  from score_every_no_better [OF this]
  show ?thesis
    by (simp add: best_of_def SAMPLE_DETAILS_def exact_query_input exact_query_score)
qed

lemma masonry_query_best:
  "best_of SAMPLE_DETAILS
       \<lparr>host_element = ''masonry'', adjacent_element = ''sill'', exposure = ''external''\<rparr>
     = (Some D_001, 0.2,
        [''Host differs'', ''Adjacent element differs'', ''Exact match on exposure''])"
  by (simp add: best_of_def SAMPLE_DETAILS_def masonry_query_input masonry_query_scores)

lemma exact_query_match:
  "match_detail
       \<lparr>host_element = ''external wall'', adjacent_element = ''slab'', exposure = ''external''\<rparr>
     = \<lparr>suggested_detail = d_title D_001, confidence = 1,
        reason = ''High confidence: Exact match on host; Exact match on adjacent element; Exact match on exposure''\<rparr>"
proof -
  let ?p = "\<lparr>host_element = ''external wall'', adjacent_element = ''slab'',
      exposure = ''external''\<rparr>"
  let ?q = "\<lparr>in_host = ''external wall'', in_adjacent = ''slab'', in_exposure = ''external''\<rparr>"
  have "best_of SAMPLE_DETAILS ?p = (Some D_001, score_match ?q D_001)"
    by (simp add: exact_query_best exact_query_score)
  from match_with_best [OF this] show ?thesis
    by (simp add: match_detail_def exact_query_score confidence_prefix_def)
qed

lemma masonry_query_match:
  "match_detail
       \<lparr>host_element = ''masonry'', adjacent_element = ''sill'', exposure = ''external''\<rparr>
     = \<lparr>suggested_detail = d_title D_001, confidence = 0.2,
        reason = ''Low confidence: Host differs; Adjacent element differs; Exact match on exposure''\<rparr>"
proof -
  let ?p = "\<lparr>host_element = ''masonry'', adjacent_element = ''sill'', exposure = ''external''\<rparr>"
  let ?q = "\<lparr>in_host = ''cmu'', in_adjacent = ''sill'', in_exposure = ''external''\<rparr>"
  have "best_of SAMPLE_DETAILS ?p = (Some D_001, score_match ?q D_001)"
    by (simp add: masonry_query_best masonry_query_scores)
  from match_with_best [OF this] show ?thesis
    by (simp add: match_detail_def masonry_query_scores confidence_prefix_def)
qed

lemma titles_differ: "d_title D_001 \<noteq> d_title D_003"
  by (simp add: D_001_def D_003_def)

subsection \<open>The replacement of a pattern\<close>

declare replace_all_occurrences.simps [simp del]

lemma replace_Cons_prefix:
  "old \<noteq> [] \<Longrightarrow> prefix old (c # cs) \<Longrightarrow>
   replace (c # cs) old new = new @ replace (drop (length old) (c # cs)) old new"
  by simp

lemma replace_Cons_other:
  "old \<noteq> [] \<Longrightarrow> \<not> prefix old (c # cs) \<Longrightarrow>
   replace (c # cs) old new = c # replace cs old new"
  by simp

lemma find_map: "find P (map f xs) = map_option f (find (P \<circ> f) xs)"
  by (induction xs) auto

lemma occurs_at_0: "occurs_at pattern s 0 \<longleftrightarrow> prefix pattern s"
  by (auto simp: occurs_at_def prefix_def take_is_prefix)
     (metis append_eq_conv_conj)

lemma occurs_at_Suc: "occurs_at pattern (c # cs) (Suc i) = occurs_at pattern cs i"
  by (simp add: occurs_at_def)

lemma upt_Suc_shift: "[0..<Suc (Suc n)] = 0 # map Suc [0..<Suc n]"
  by (simp only: map_Suc_upt upt_conv_Cons [of 0 "Suc (Suc n)"] zero_less_Suc)

lemma first_occurrence_prefix:
  "prefix pattern s \<Longrightarrow> first_occurrence pattern s = Some 0"
  unfolding first_occurrence_def
  by (cases s) (simp_all add: upt_conv_Cons occurs_at_0 del: upt_Suc)

lemma first_occurrence_Cons:
  assumes "\<not> prefix pattern (c # cs)"
  shows "first_occurrence pattern (c # cs) = map_option Suc (first_occurrence pattern cs)"
proof -
  have "first_occurrence pattern (c # cs)
      = find (occurs_at pattern (c # cs)) (0 # map Suc [0..<Suc (length cs)])"
    unfolding first_occurrence_def by (simp only: upt_Suc_shift length_Cons)
  also have "\<dots> = find (occurs_at pattern (c # cs)) (map Suc [0..<Suc (length cs)])"
    using assms by (simp add: occurs_at_0)
  also have "\<dots> = map_option Suc (find (occurs_at pattern (c # cs) \<circ> Suc) [0..<Suc (length cs)])"
    by (rule find_map)
  also have "occurs_at pattern (c # cs) \<circ> Suc = occurs_at pattern cs"
    by (rule ext) (simp add: occurs_at_Suc)
  finally show ?thesis by (simp add: first_occurrence_def)
qed

lemma replace_eq_all_occurrences:
  "old \<noteq> [] \<Longrightarrow> replace s old new = replace_all_occurrences old new s"
proof (induction s old new rule: replace.induct)
  case (1 old new)
  have "first_occurrence old [] = None"
    using 1 by (simp add: first_occurrence_def occurs_at_def)
  then show ?case using 1 by (simp add: replace_all_occurrences.simps [of old new "[]"])
next
  case (2 c cs old new)
  show ?case
  proof (cases "prefix old (c # cs)")
    case True
    then have "replace (c # cs) old new = new @ replace (drop (length old) (c # cs)) old new"
      using 2(4) by simp
    also have "\<dots> = new @ replace_all_occurrences old new (drop (length old) (c # cs))"
      using 2(2) [OF 2(4) True 2(4)] by simp
    also have "\<dots> = replace_all_occurrences old new (c # cs)"
      using 2(4) first_occurrence_prefix [OF True]
      by (simp add: replace_all_occurrences.simps [of old new "c # cs"])
    finally show ?thesis .
  next
    case False
    have r: "replace (c # cs) old new = c # replace_all_occurrences old new cs"
      using 2(3) [OF 2(4) False 2(4)] 2(4) False by simp
    show ?thesis
    proof (cases "first_occurrence old cs")
      case None
      then have "first_occurrence old (c # cs) = None"
        using first_occurrence_Cons [OF False] by simp
      then show ?thesis
        using r None 2(4)
        by (simp add: replace_all_occurrences.simps [of old new "c # cs"]
            replace_all_occurrences.simps [of old new cs])
    next
      case (Some i)
      then have "first_occurrence old (c # cs) = Some (Suc i)"
        using first_occurrence_Cons [OF False] by simp
      then show ?thesis
        using r Some 2(4)
        by (simp add: replace_all_occurrences.simps [of old new "c # cs"]
            replace_all_occurrences.simps [of old new cs])
    qed
  qed
qed

lemma replace_absent:
  "old \<noteq> [] \<Longrightarrow> \<not> sublist old s \<Longrightarrow> replace s old new = s"
proof (induction s old new rule: replace.induct)
  case (1 old new)
  then show ?case by simp
next
  case (2 c cs old new)
  from 2(5) have np: "\<not> prefix old (c # cs)" and ns: "\<not> sublist old cs"
    by (simp_all add: sublist_Cons_right)
  from 2(3) [OF 2(4) np 2(4) ns] show ?case using 2(4) np by simp
qed

lemma apply_synonyms_eq_rules:
  "\<forall>(old, new) \<in> set rules. old \<noteq> [] \<Longrightarrow> apply_synonyms rules s = apply_rules rules s"
proof (induction rules arbitrary: s)
  case Nil
  then show ?case by simp
next
  case (Cons rule rules)
  obtain old new where rule: "rule = (old, new)" by (cases rule)
  from Cons.prems have ne: "old \<noteq> []" and rest: "\<forall>(old, new) \<in> set rules. old \<noteq> []"
    by (simp_all add: rule)
  have "(if sublist old s then replace s old new else s) = replace_all_occurrences old new s"
    using replace_absent [OF ne, of s new] replace_eq_all_occurrences [OF ne, of s new] by simp
  then show ?case using Cons.IH [OF rest] by (simp add: rule)
qed

subsection \<open>Patterns that a replacement cannot bring back\<close>

lemma no_overlap_suffix_left:
  "no_overlap p new \<Longrightarrow> suffix q p \<Longrightarrow> q \<noteq> [] \<Longrightarrow> \<not> prefix q new \<and> \<not> prefix new q"
  by (auto simp: no_overlap_def list_all_iff)

lemma no_overlap_suffix_right:
  "no_overlap p new \<Longrightarrow> suffix t new \<Longrightarrow> t \<noteq> [] \<Longrightarrow> \<not> prefix t p \<and> \<not> prefix p t"
  by (auto simp: no_overlap_def list_all_iff)

lemma prefix_replace:
  "old \<noteq> [] \<Longrightarrow> no_overlap p new \<Longrightarrow> suffix q p \<Longrightarrow> q \<noteq> []
   \<Longrightarrow> prefix q (replace s old new) \<Longrightarrow> prefix q s"
proof (induction s old new arbitrary: q rule: replace.induct)
  case (1 old new)
  then show ?case by simp
next
  case (2 c cs old new)
  note ne = \<open>old \<noteq> []\<close>
  show ?case
  proof (cases "prefix old (c # cs)")
    case True
    then have "replace (c # cs) old new = new @ replace (drop (length old) (c # cs)) old new"
      using ne by simp
    with 2(8) have "prefix q new \<or> prefix new q"
      by (auto simp: prefix_append)
    with no_overlap_suffix_left [OF 2(5) 2(6) 2(7)] show ?thesis by blast
  next
    case False
    then have r: "replace (c # cs) old new = c # replace cs old new"
      using ne by simp
    from 2(7) obtain q' where q: "q = c # q'" "prefix q' (replace cs old new)"
      using 2(8) unfolding r by (cases q) auto
    show ?thesis
    proof (cases "q' = []")
      case True
      then show ?thesis using q by simp
    next
      case nonempty: False
      have "suffix q' p" using 2(6) q(1) by (auto dest: suffix_ConsD)
      from 2(3) [OF ne False ne 2(5) this nonempty q(2)] show ?thesis
        using q(1) by simp
    qed
  qed
qed

lemma sublist_new_append:
  assumes "no_overlap p new" "p \<noteq> []" "sublist p (new @ r)"
  shows "sublist p r"
proof -
  from assms(3) consider "sublist p new" | "sublist p r"
    | p1 p2 where "p = p1 @ p2" "suffix p1 new" "prefix p2 r"
    by (auto simp: sublist_append)
  then show ?thesis
  proof cases
    case 1
    then obtain t where t: "suffix t new" "prefix p t"
      by (auto simp: sublist_altdef')
    with assms(2) have "t \<noteq> []" by auto
    with no_overlap_suffix_right [OF assms(1) t(1)] t(2) show ?thesis by blast
  next
    case 2
    then show ?thesis .
  next
    case 3
    show ?thesis
    proof (cases "p1 = []")
      case True
      then show ?thesis using 3 by auto
    next
      case False
      have "prefix p1 p" using 3(1) by simp
      with no_overlap_suffix_right [OF assms(1) 3(2) False] show ?thesis by blast
    qed
  qed
qed

lemma sublist_of_drop: "sublist p (drop n s) \<Longrightarrow> sublist p s"
proof -
  assume "sublist p (drop n s)"
  then have "sublist p (take n s @ drop n s)" by (simp only: sublist_append) simp
  then show ?thesis by simp
qed

lemma sublist_replace:
  "old \<noteq> [] \<Longrightarrow> no_overlap p new \<Longrightarrow> p \<noteq> [] \<Longrightarrow> sublist p (replace s old new)
   \<Longrightarrow> sublist p s"
proof (induction s old new rule: replace.induct)
  case (1 old new)
  then show ?case by simp
next
  case (2 c cs old new)
  note ne = \<open>old \<noteq> []\<close>
  show ?case
  proof (cases "prefix old (c # cs)")
    case True
    from 2(7) have "sublist p (new @ replace (drop (length old) (c # cs)) old new)"
      unfolding replace_Cons_prefix [OF ne True] .
    then have "sublist p (replace (drop (length old) (c # cs)) old new)"
      by (rule sublist_new_append [OF 2(5) 2(6)])
    from 2(2) [OF ne True ne 2(5) 2(6) this]
    have "sublist p (drop (length old) (c # cs))" .
    then show ?thesis by (rule sublist_of_drop)
  next
    case False
    note r = replace_Cons_other [OF ne False]
    from 2(7) have "sublist p (c # replace cs old new)"
      unfolding r .
    then have "prefix p (c # replace cs old new) \<or> sublist p (replace cs old new)"
      by (simp only: sublist_Cons_right)
    then show ?thesis
    proof
      assume "prefix p (c # replace cs old new)"
      then have "prefix p (replace (c # cs) old new)" unfolding r .
      from prefix_replace [OF ne 2(5) suffix_order.refl 2(6) this]
      show ?thesis by (rule prefix_imp_sublist)
    next
      assume "sublist p (replace cs old new)"
      from 2(3) [OF ne False ne 2(5) 2(6) this] show ?thesis
        by (simp only: sublist_Cons_right simp_thms)
    qed
  qed
qed

lemma replace_removes:
  "old \<noteq> [] \<Longrightarrow> no_overlap old new \<Longrightarrow> \<not> sublist old (replace s old new)"
proof (induction s old new rule: replace.induct)
  case (1 old new)
  then show ?case by simp
next
  case (2 c cs old new)
  note ne = \<open>old \<noteq> []\<close>
  show ?case
  proof (cases "prefix old (c # cs)")
    case True
    note r = replace_Cons_prefix [OF ne True]
    show ?thesis
      unfolding r using sublist_new_append [OF 2(5) ne] 2(2) [OF ne True ne 2(5)] by blast
  next
    case False
    then have r: "replace (c # cs) old new = c # replace cs old new"
      using ne by simp
    show ?thesis
    proof
      assume "sublist old (replace (c # cs) old new)"
      then have "prefix old (replace (c # cs) old new) \<or> sublist old (replace cs old new)"
        unfolding r by (simp add: sublist_Cons_right)
      then show False
      proof
        assume "prefix old (replace (c # cs) old new)"
        from prefix_replace [OF ne 2(5) suffix_order.refl ne this] have "prefix old (c # cs)" .
        with False show False ..
      next
        assume "sublist old (replace cs old new)"
        with 2(3) [OF ne False ne 2(5)] show False ..
      qed
    qed
  qed
qed

lemma apply_synonyms_append:
  "apply_synonyms (pre @ post) s = apply_synonyms post (apply_synonyms pre s)"
  by (induction pre arbitrary: s) auto

lemma pattern_stays_absent:
  "p \<noteq> [] \<Longrightarrow> list_all (\<lambda>(old, new). old \<noteq> [] \<and> no_overlap p new) rules
   \<Longrightarrow> \<not> sublist p s \<Longrightarrow> \<not> sublist p (apply_synonyms rules s)"
proof (induction rules arbitrary: s)
  case Nil
  then show ?case by simp
next
  case (Cons rule rules)
  obtain old new where rule: "rule = (old, new)" by (cases rule)
  from Cons.prems(2) have ne: "old \<noteq> []" and ov: "no_overlap p new"
    and rest: "list_all (\<lambda>(old, new). old \<noteq> [] \<and> no_overlap p new) rules"
    by (simp_all add: rule)
  let ?s = "if sublist old s then replace s old new else s"
  have "\<not> sublist p ?s"
    using sublist_replace [OF ne ov Cons.prems(1), of s] Cons.prems(3) by auto
  from Cons.IH [OF Cons.prems(1) rest this] show ?case by (simp add: rule)
qed

lemma pattern_gone:
  assumes "p \<noteq> []" "no_overlap p r"
    and "list_all (\<lambda>(old, new). old \<noteq> [] \<and> no_overlap p new) post"
  shows "\<not> sublist p (apply_synonyms (pre @ (p, r) # post) s)"
proof -
  let ?s = "apply_synonyms pre s"
  let ?t = "if sublist p ?s then replace ?s p r else ?s"
  have "\<not> sublist p ?t"
    using replace_removes [OF assms(1,2), of ?s] by simp
  from pattern_stays_absent [OF assms(1,3) this] show ?thesis
    by (simp add: apply_synonyms_append)
qed

lemma length_replace_le:
  "old \<noteq> [] \<Longrightarrow> length new \<le> length old \<Longrightarrow> length (replace s old new) \<le> length s"
proof (induction s old new rule: replace.induct)
  case (1 old new)
  then show ?case by simp
next
  case (2 c cs old new)
  note ne = \<open>old \<noteq> []\<close>
  show ?case
  proof (cases "prefix old (c # cs)")
    case True
    then have "length old \<le> length (c # cs)" by (rule prefix_length_le)
    with 2(2) [OF ne True ne 2(5)] 2(5) show ?thesis
      unfolding replace_Cons_prefix [OF ne True] by simp
  next
    case False
    with 2(3) [OF ne False ne 2(5)] show ?thesis
      unfolding replace_Cons_other [OF ne False] by simp
  qed
qed

lemma length_replace_less:
  "old \<noteq> [] \<Longrightarrow> length new < length old \<Longrightarrow> sublist old s
   \<Longrightarrow> length (replace s old new) < length s"
proof (induction s old new rule: replace.induct)
  case (1 old new)
  then show ?case by simp
next
  case (2 c cs old new)
  note ne = \<open>old \<noteq> []\<close>
  show ?case
  proof (cases "prefix old (c # cs)")
    case True
    then have "length old \<le> length (c # cs)" by (rule prefix_length_le)
    moreover have "length (replace (drop (length old) (c # cs)) old new)
        \<le> length (drop (length old) (c # cs))"
      using 2(5) by (intro length_replace_le [OF ne]) simp
    ultimately show ?thesis
      unfolding replace_Cons_prefix [OF ne True] using 2(5) by simp
  next
    case False
    with 2(6) have "sublist old cs" by (simp add: sublist_Cons_right)
    from 2(3) [OF ne False ne 2(5) this] show ?thesis
      unfolding replace_Cons_other [OF ne False] by simp
  qed
qed

subsection \<open>Patterns that a replacement cannot remove, and the pattern it rebuilds\<close>

lemma rebuilds_parts:
  assumes "rebuilds a old new"
  shows "a \<noteq> []" "new \<noteq> []" "old = a @ new"
    and "\<forall>t \<in> set (suffixes old). t = [] \<or> \<not> prefix t (a @ old)"
    and "\<forall>t \<in> set (suffixes a). t = [] \<or> \<not> prefix old (t @ old)"
    and "\<forall>t \<in> set (suffixes a). t = [] \<or> \<not> prefix new (t @ new)"
    and "\<forall>t \<in> set (suffixes new). t = [] \<or> t = new \<or> \<not> prefix t new"
    and "\<forall>t \<in> set (suffixes new). t = [] \<or> \<not> prefix t old"
  using assms unfolding rebuilds_def list_all_iff by blast+

lemma rebuilds_old:
  "rebuilds a old new \<Longrightarrow> suffix t old \<Longrightarrow> t \<noteq> [] \<Longrightarrow> \<not> prefix t (a @ old)"
  using rebuilds_parts(4) [of a old new] in_set_suffixes [of t old] by blast

lemma rebuilds_gap_old:
  "rebuilds a old new \<Longrightarrow> suffix t a \<Longrightarrow> t \<noteq> [] \<Longrightarrow> \<not> prefix old (t @ old)"
  using rebuilds_parts(5) [of a old new] in_set_suffixes [of t a] by blast

lemma rebuilds_gap_new:
  "rebuilds a old new \<Longrightarrow> suffix t a \<Longrightarrow> t \<noteq> [] \<Longrightarrow> \<not> prefix new (t @ new)"
  using rebuilds_parts(6) [of a old new] in_set_suffixes [of t a] by blast

lemma rebuilds_new:
  "rebuilds a old new \<Longrightarrow> suffix t new \<Longrightarrow> t \<noteq> [] \<Longrightarrow> t \<noteq> new \<Longrightarrow> \<not> prefix t new"
  using rebuilds_parts(7) [of a old new] in_set_suffixes [of t new] by blast

lemma rebuilds_new_old:
  "rebuilds a old new \<Longrightarrow> suffix t new \<Longrightarrow> t \<noteq> [] \<Longrightarrow> \<not> prefix t old"
  using rebuilds_parts(8) [of a old new] in_set_suffixes [of t new] by blast

lemma prefix_kept:
  "old \<noteq> [] \<Longrightarrow> no_overlap p old \<Longrightarrow> suffix q p \<Longrightarrow> q \<noteq> [] \<Longrightarrow> prefix q s
   \<Longrightarrow> prefix q (replace s old new)"
proof (induction s old new arbitrary: q rule: replace.induct)
  case (1 old new)
  then show ?case by simp
next
  case (2 c cs old new)
  note ne = \<open>old \<noteq> []\<close>
  show ?case
  proof (cases "prefix old (c # cs)")
    case True
    with 2(8) have "prefix q old \<or> prefix old q"
      by (metis prefix_same_cases)
    with no_overlap_suffix_left [OF 2(5) 2(6) 2(7)] show ?thesis by blast
  next
    case False
    note r = replace_Cons_other [OF ne False]
    from 2(7,8) obtain q' where q: "q = c # q'" "prefix q' cs"
      by (cases q) auto
    show ?thesis
    proof (cases "q' = []")
      case True
      then show ?thesis unfolding r q(1) by simp
    next
      case nonempty: False
      have "suffix q' p" using 2(6) q(1) by (auto dest: suffix_ConsD)
      from 2(3) [OF ne False ne 2(5) this nonempty q(2)] show ?thesis
        unfolding r q(1) by simp
    qed
  qed
qed

lemma sublist_kept:
  "old \<noteq> [] \<Longrightarrow> no_overlap p old \<Longrightarrow> p \<noteq> [] \<Longrightarrow> sublist p s
   \<Longrightarrow> sublist p (replace s old new)"
proof (induction s old new rule: replace.induct)
  case (1 old new)
  then show ?case by simp
next
  case (2 c cs old new)
  note ne = \<open>old \<noteq> []\<close>
  show ?case
  proof (cases "prefix old (c # cs)")
    case True
    note r = replace_Cons_prefix [OF ne True]
    from True obtain rest where rest: "c # cs = old @ rest"
      by (auto elim: prefixE)
    have d: "drop (length old) (c # cs) = rest" unfolding rest by simp
    from 2(7) have "sublist p (old @ rest)" unfolding rest .
    then have "sublist p rest"
      by (rule sublist_new_append [OF 2(5) 2(6)])
    then have "sublist p (drop (length old) (c # cs))" unfolding d .
    from 2(2) [OF ne True ne 2(5) 2(6) this] show ?thesis
      unfolding r by (simp only: sublist_append simp_thms)
  next
    case False
    note r = replace_Cons_other [OF ne False]
    from 2(7) have "prefix p (c # cs) \<or> sublist p cs"
      by (simp only: sublist_Cons_right)
    then show ?thesis
    proof
      assume "prefix p (c # cs)"
      from prefix_kept [OF ne 2(5) suffix_order.refl 2(6) this]
      show ?thesis by (rule prefix_imp_sublist)
    next
      assume "sublist p cs"
      from 2(3) [OF ne False ne 2(5) 2(6) this] show ?thesis
        unfolding r by (simp only: sublist_Cons_right simp_thms)
    qed
  qed
qed

lemma pattern_stays_present:
  "p \<noteq> [] \<Longrightarrow> list_all (\<lambda>(old, new). old \<noteq> [] \<and> no_overlap p old) rules
   \<Longrightarrow> sublist p s \<Longrightarrow> sublist p (apply_synonyms rules s)"
proof (induction rules arbitrary: s)
  case Nil
  then show ?case by simp
next
  case (Cons rule rules)
  obtain old new where rule: "rule = (old, new)" by (cases rule)
  from Cons.prems(2) have ne: "old \<noteq> []" and ov: "no_overlap p old"
    and rest: "list_all (\<lambda>(old, new). old \<noteq> [] \<and> no_overlap p old) rules"
    by (simp_all add: rule)
  let ?s = "if sublist old s then replace s old new else s"
  have "sublist p ?s"
    using sublist_kept [OF ne ov Cons.prems(1) Cons.prems(3), of new] Cons.prems(3) by simp
  from Cons.IH [OF Cons.prems(1) rest this] show ?case by (simp add: rule)
qed

lemma replace_through_gap:
  assumes "rebuilds a old new" "suffix t a"
  shows "replace (t @ old @ r) old new = t @ new @ replace r old new"
  using assms(2)
proof (induction t)
  case Nil
  have ne: "old \<noteq> []" using rebuilds_parts(1,3) [OF assms(1)] by simp
  show ?case
  proof (cases "old @ r")
    case Nil
    with ne show ?thesis by simp
  next
    case (Cons c cs)
    have p: "prefix old (c # cs)" unfolding Cons [symmetric] by simp
    have "drop (length old) (c # cs) = r" unfolding Cons [symmetric] by simp
    with replace_Cons_prefix [OF ne p, of new] show ?thesis
      unfolding Cons [symmetric] by simp
  qed
next
  case (Cons c t)
  have ne: "old \<noteq> []" using rebuilds_parts(1,3) [OF assms(1)] by simp
  have "\<not> prefix old ((c # t) @ old)"
    using rebuilds_gap_old [OF assms(1) Cons.prems] by simp
  moreover have "length old \<le> length ((c # t) @ old)" by simp
  ultimately have np: "\<not> prefix old (c # (t @ old @ r))"
    by (metis append_Cons prefix_length_prefix prefix_append prefixI)
  have "suffix t a" using Cons.prems by (rule suffix_ConsD)
  from Cons.IH [OF this] replace_Cons_other [OF ne np, of new] show ?case by simp
qed

lemma nested_pattern_kept:
  "rebuilds a old new \<Longrightarrow> sublist (a @ old) s \<Longrightarrow> sublist (a @ new) (replace s old new)"
proof (induction s old new rule: replace.induct)
  case (1 old new)
  then show ?case by simp
next
  case (2 c cs old new)
  note rb = \<open>rebuilds a old new\<close>
  have ne: "old \<noteq> []" and a: "a \<noteq> []"
    using rebuilds_parts(1,3) [OF rb] by simp_all
  show ?case
  proof (cases "prefix old (c # cs)")
    case True
    note r = replace_Cons_prefix [OF ne True]
    from True obtain rest where rest: "c # cs = old @ rest"
      by (auto elim: prefixE)
    have d: "drop (length old) (c # cs) = rest" unfolding rest by simp
    from 2(5) have "sublist (a @ old) (old @ rest)" unfolding rest .
    then consider "sublist (a @ old) old" | "sublist (a @ old) rest"
      | p1 p2 where "a @ old = p1 @ p2" "suffix p1 old" "prefix p2 rest"
      unfolding sublist_append by blast
    then have "sublist (a @ old) rest"
    proof cases
      case 1
      then have "length (a @ old) \<le> length old" by (rule sublist_length_le)
      with a show ?thesis by simp
    next
      case 2
      then show ?thesis .
    next
      case 3
      show ?thesis
      proof (cases "p1 = []")
        case True
        with 3(1,3) show ?thesis by auto
      next
        case False
        have "prefix p1 (a @ old)" unfolding 3(1) by simp
        with rebuilds_old [OF rb 3(2) False] show ?thesis by blast
      qed
    qed
    then have "sublist (a @ old) (drop (length old) (c # cs))" unfolding d .
    from 2(2) [OF ne True rb this] show ?thesis
      unfolding r by (simp only: sublist_append simp_thms)
  next
    case False
    note r = replace_Cons_other [OF ne False]
    from 2(5) have "prefix (a @ old) (c # cs) \<or> sublist (a @ old) cs"
      by (simp only: sublist_Cons_right)
    then show ?thesis
    proof
      assume "prefix (a @ old) (c # cs)"
      then obtain rest where "c # cs = a @ old @ rest"
        by (auto elim: prefixE)
      with replace_through_gap [OF rb suffix_order.refl, of rest]
      have "replace (c # cs) old new = (a @ new) @ replace rest old new" by simp
      then show ?thesis by (simp only: sublist_append_rightI)
    next
      assume "sublist (a @ old) cs"
      from 2(3) [OF ne False rb this] show ?thesis
        unfolding r by (simp only: sublist_Cons_right simp_thms)
    qed
  qed
qed

lemma proper_suffix_length: "suffix n xs \<Longrightarrow> n \<noteq> xs \<Longrightarrow> length n < length xs"
  by (auto simp: suffix_def)

lemma prefix_new_tail:
  "rebuilds a old new \<Longrightarrow> suffix n new \<Longrightarrow> n \<noteq> new \<Longrightarrow> prefix n (replace s old new)
   \<Longrightarrow> prefix n s"
proof (induction s old new arbitrary: n rule: replace.induct)
  case (1 old new)
  then show ?case using rebuilds_parts(1,3) [of a old new] by simp
next
  case (2 c cs old new)
  note rb = \<open>rebuilds a old new\<close>
  have ne: "old \<noteq> []" using rebuilds_parts(1,3) [OF rb] by simp
  have len: "length n < length new" using 2(5,6) by (rule proper_suffix_length)
  show ?case
  proof (cases "n = []")
    case True
    then show ?thesis by simp
  next
    case nonempty: False
    show ?thesis
    proof (cases "prefix old (c # cs)")
      case True
      from 2(7) have "prefix n (new @ replace (drop (length old) (c # cs)) old new)"
        unfolding replace_Cons_prefix [OF ne True] .
      with len have "prefix n new" by (auto simp: prefix_append)
      with rebuilds_new [OF rb 2(5) nonempty 2(6)] show ?thesis by blast
    next
      case False
      from 2(7) have "prefix n (c # replace cs old new)"
        unfolding replace_Cons_other [OF ne False] .
      with nonempty obtain n' where n: "n = c # n'" "prefix n' (replace cs old new)"
        by (cases n) auto
      have "suffix n' new" using 2(5) n(1) by (auto dest: suffix_ConsD)
      moreover have "n' \<noteq> new" using len n(1) by auto
      ultimately have "prefix n' cs" using 2(3) [OF ne False rb _ _ n(2)] by blast
      then show ?thesis unfolding n(1) by simp
    qed
  qed
qed

lemma prefix_nested_origin:
  "rebuilds a old new \<Longrightarrow> suffix t a \<Longrightarrow> prefix (t @ new) (replace s old new)
   \<Longrightarrow> prefix (t @ old) s \<or> prefix (t @ new) s"
proof (induction s old new arbitrary: t rule: replace.induct)
  case (1 old new)
  then show ?case using rebuilds_parts(1,2,3) [of a old new] by simp
next
  case (2 c cs old new)
  note rb = \<open>rebuilds a old new\<close>
  have ne: "old \<noteq> []" and nn: "new \<noteq> []"
    using rebuilds_parts(1,2,3) [OF rb] by simp_all
  show ?case
  proof (cases "prefix old (c # cs)")
    case True
    show ?thesis
    proof (cases "t = []")
      case True
      with \<open>prefix old (c # cs)\<close> show ?thesis by simp
    next
      case False
      from 2(6) have "prefix (t @ new) (new @ replace (drop (length old) (c # cs)) old new)"
        unfolding replace_Cons_prefix [OF ne True] .
      from this [unfolded prefix_append]
      have "prefix (t @ new) new \<or> prefix new (t @ new)"
        by (metis prefixI)
      moreover have "\<not> prefix (t @ new) new"
        using False by (auto dest: prefix_length_le)
      ultimately show ?thesis using rebuilds_gap_new [OF rb 2(5) False] by blast
    qed
  next
    case False
    from 2(6) have p: "prefix (t @ new) (c # replace cs old new)"
      unfolding replace_Cons_other [OF ne False] .
    show ?thesis
    proof (cases t)
      case Nil
      from nn obtain n' where n: "new = c # n'" "prefix n' (replace cs old new)"
        using p Nil by (cases new) auto
      have "suffix n' new" unfolding n(1) by (simp add: suffix_ConsI)
      moreover have "n' \<noteq> new" unfolding n(1) by simp
      ultimately have "prefix n' cs" using prefix_new_tail [OF rb _ _ n(2)] by blast
      then have "prefix new (c # cs)" by (subst n(1)) simp
      then show ?thesis using Nil by simp
    next
      case (Cons c' t')
      with p have c: "c' = c" and p': "prefix (t' @ new) (replace cs old new)" by simp_all
      have "suffix t' a" using 2(5) Cons by (auto dest: suffix_ConsD)
      from 2(3) [OF ne False rb this p'] show ?thesis
        unfolding Cons c by simp
    qed
  qed
qed

lemma nested_pattern_origin:
  "rebuilds a old new \<Longrightarrow> sublist old (replace s old new) \<Longrightarrow> sublist (a @ old) s"
proof (induction s old new rule: replace.induct)
  case (1 old new)
  then show ?case using rebuilds_parts(1,3) [of a old new] by simp
next
  case (2 c cs old new)
  note rb = \<open>rebuilds a old new\<close>
  have ne: "old \<noteq> []" and a: "a \<noteq> []" and old: "old = a @ new"
    using rebuilds_parts(1,3) [OF rb] by simp_all
  show ?case
  proof (cases "prefix old (c # cs)")
    case True
    let ?R = "replace (drop (length old) (c # cs)) old new"
    from 2(5) have "sublist old (new @ ?R)"
      unfolding replace_Cons_prefix [OF ne True] .
    then consider "sublist old new" | "sublist old ?R"
      | p1 p2 where "old = p1 @ p2" "suffix p1 new" "prefix p2 ?R"
      unfolding sublist_append by blast
    then have "sublist old ?R"
    proof cases
      case 1
      then have "length old \<le> length new" by (rule sublist_length_le)
      with a old show ?thesis by simp
    next
      case 2
      then show ?thesis .
    next
      case 3
      show ?thesis
      proof (cases "p1 = []")
        case True
        with 3(1,3) show ?thesis by auto
      next
        case False
        have "prefix p1 old" by (subst 3(1)) simp
        with rebuilds_new_old [OF rb 3(2) False] show ?thesis by blast
      qed
    qed
    from 2(2) [OF ne True rb this] show ?thesis by (rule sublist_of_drop)
  next
    case False
    note r = replace_Cons_other [OF ne False]
    from 2(5) have "prefix old (replace (c # cs) old new) \<or> sublist old (replace cs old new)"
      unfolding r by (simp only: sublist_Cons_right)
    then show ?thesis
    proof
      assume "prefix old (replace (c # cs) old new)"
      then have "prefix (a @ new) (replace (c # cs) old new)" using old by simp
      from prefix_nested_origin [OF rb suffix_order.refl this] False old
      have "prefix (a @ old) (c # cs)" by auto
      then show ?thesis by (rule prefix_imp_sublist)
    next
      assume "sublist old (replace cs old new)"
      from 2(3) [OF ne False rb this] show ?thesis
        by (simp only: sublist_Cons_right simp_thms)
    qed
  qed
qed

subsection \<open>A normalized string is trimmed and in lower case\<close>

lemma lower_char_idem: "lower_char (lower_char c) = lower_char c"
  by (simp add: lower_char_def Let_def)

lemma isspace_lower_char: "isspace (lower_char c) = isspace c"
  by (auto simp: lower_char_def isspace_def Let_def)

lemma lowered_lower: "lowered (lower s)"
  by (simp add: lowered_def lower_def list_all_iff lower_char_idem)

lemma lower_lowered: "lowered s \<Longrightarrow> lower s = s"
  by (simp add: lowered_def lower_def list_all_iff map_idI)

lemma set_replace: "old \<noteq> [] \<Longrightarrow> set (replace s old new) \<subseteq> set s \<union> set new"
proof (induction s old new rule: replace.induct)
  case (1 old new)
  then show ?case by simp
next
  case (2 c cs old new)
  note ne = \<open>old \<noteq> []\<close>
  show ?case
  proof (cases "prefix old (c # cs)")
    case True
    have "set (drop (length old) (c # cs)) \<subseteq> set (c # cs)" by (rule set_drop_subset)
    with 2(2) [OF ne True ne] show ?thesis
      unfolding replace_Cons_prefix [OF ne True] by auto
  next
    case False
    with 2(3) [OF ne False ne] show ?thesis
      unfolding replace_Cons_other [OF ne False] by auto
  qed
qed

lemma lowered_replace:
  "old \<noteq> [] \<Longrightarrow> lowered new \<Longrightarrow> lowered s \<Longrightarrow> lowered (replace s old new)"
  using set_replace [of old s new] by (auto simp: lowered_def list_all_iff)

lemma dropWhile_id: "xs = [] \<or> \<not> P (hd xs) \<Longrightarrow> dropWhile P xs = xs"
  by (cases xs) auto

lemma trimmed_strip: "trimmed s \<Longrightarrow> strip s = s"
proof -
  assume t: "trimmed s"
  then have 1: "dropWhile isspace s = s"
    by (intro dropWhile_id) (auto simp: trimmed_def)
  from t have "dropWhile isspace (rev s) = rev s"
    by (intro dropWhile_id) (auto simp: trimmed_def hd_rev)
  with 1 show ?thesis by (simp add: strip_def)
qed

lemma strip_trimmed: "trimmed (strip s)"
proof -
  define t where "t = dropWhile isspace s"
  define u where "u = dropWhile isspace (rev t)"
  have t: "t = [] \<or> \<not> isspace (hd t)"
    unfolding t_def by (metis hd_dropWhile)
  have u: "u = [] \<or> \<not> isspace (hd u)"
    unfolding u_def by (metis hd_dropWhile)
  have s: "strip s = rev u" by (simp add: strip_def t_def u_def)
  show ?thesis
  proof (cases "u = []")
    case True
    then show ?thesis by (simp add: s trimmed_def)
  next
    case False
    have "suffix u (rev t)" unfolding u_def by (rule suffix_dropWhile)
    then obtain v where v: "rev t = v @ u" by (auto simp: suffix_def)
    with False have "last u = last (rev t)" by simp
    also have "\<dots> = hd t" by (rule last_rev)
    finally have "last u = hd t" .
    moreover have "t \<noteq> []" using v False by auto
    ultimately have "\<not> isspace (last u)" using t by simp
    moreover have "\<not> isspace (hd u)" using u False by simp
    ultimately show ?thesis using False by (simp add: s trimmed_def hd_rev last_rev)
  qed
qed

lemma trimmed_lower: "trimmed s \<Longrightarrow> trimmed (lower s)"
  by (cases "s = []")
     (auto simp: trimmed_def lower_def hd_map last_map isspace_lower_char)

lemma replace_Nil_iff:
  "old \<noteq> [] \<Longrightarrow> new \<noteq> [] \<Longrightarrow> replace s old new = [] \<longleftrightarrow> s = []"
  by (cases s) auto

lemma hd_replace:
  "old \<noteq> [] \<Longrightarrow> new \<noteq> [] \<Longrightarrow> s \<noteq> [] \<Longrightarrow>
   hd (replace s old new) = hd s \<or> hd (replace s old new) = hd new"
  by (cases s) auto

lemma last_replace:
  "old \<noteq> [] \<Longrightarrow> new \<noteq> [] \<Longrightarrow> s \<noteq> [] \<Longrightarrow>
   last (replace s old new) = last s \<or> last (replace s old new) = last new"
proof (induction s old new rule: replace.induct)
  case (1 old new)
  then show ?case by simp
next
  case (2 c cs old new)
  note ne = \<open>old \<noteq> []\<close> and nn = \<open>new \<noteq> []\<close>
  show ?case
  proof (cases "prefix old (c # cs)")
    case True
    let ?rest = "drop (length old) (c # cs)"
    note r = replace_Cons_prefix [OF ne True]
    show ?thesis
    proof (cases "?rest = []")
      case True
      then have "replace ?rest old new = []" using ne by simp
      then show ?thesis unfolding r by simp
    next
      case False
      then have "replace ?rest old new \<noteq> []"
        using replace_Nil_iff [OF ne nn] by simp
      then have "last (new @ replace ?rest old new) = last (replace ?rest old new)"
        by simp
      moreover have "last ?rest = last (c # cs)" using False by (simp add: last_drop)
      ultimately show ?thesis
        unfolding r using 2(2) [OF ne True ne nn False] by metis
    qed
  next
    case False
    note r = replace_Cons_other [OF ne False]
    show ?thesis
    proof (cases "cs = []")
      case True
      then have "replace cs old new = []" using ne by simp
      then show ?thesis unfolding r using True by simp
    next
      case nonempty: False
      then have "replace cs old new \<noteq> []"
        using replace_Nil_iff [OF ne nn] by simp
      then have "last (c # replace cs old new) = last (replace cs old new)" by simp
      moreover have "last (c # cs) = last cs" using nonempty by simp
      ultimately show ?thesis
        unfolding r using 2(3) [OF ne False ne nn nonempty] by metis
    qed
  qed
qed

lemma trimmed_replace:
  assumes "clean_rule (old, new)" "trimmed s"
  shows "trimmed (replace s old new)"
proof (cases "s = []")
  case True
  then show ?thesis using assms(1) by (simp add: trimmed_def clean_rule_def)
next
  case False
  from assms(1) have ne: "old \<noteq> []" and nn: "new \<noteq> []"
    and ends: "\<not> isspace (hd new)" "\<not> isspace (last new)"
    by (simp_all add: clean_rule_def)
  from assms(2) False have s: "\<not> isspace (hd s)" "\<not> isspace (last s)"
    by (simp_all add: trimmed_def)
  from hd_replace [OF ne nn False] s(1) ends(1)
  have "\<not> isspace (hd (replace s old new))" by metis
  moreover from last_replace [OF ne nn False] s(2) ends(2)
  have "\<not> isspace (last (replace s old new))" by metis
  ultimately show ?thesis by (simp add: trimmed_def)
qed

lemma apply_synonyms_keeps:
  "list_all clean_rule rules \<Longrightarrow> trimmed s \<Longrightarrow> lowered s
   \<Longrightarrow> trimmed (apply_synonyms rules s) \<and> lowered (apply_synonyms rules s)"
proof (induction rules arbitrary: s)
  case Nil
  then show ?case by simp
next
  case (Cons rule rules)
  obtain old new where rule: "rule = (old, new)" by (cases rule)
  from Cons.prems(1) have c: "clean_rule (old, new)" and rest: "list_all clean_rule rules"
    by (simp_all add: rule)
  let ?s = "if sublist old s then replace s old new else s"
  have "trimmed ?s" using trimmed_replace [OF c Cons.prems(2)] Cons.prems(2) by simp
  moreover have "lowered ?s"
    using lowered_replace [of old new s] c Cons.prems(3) by (simp add: clean_rule_def)
  ultimately show ?case using Cons.IH [OF rest, of ?s] by (simp add: rule)
qed

lemma shipped_rules_clean: "list_all clean_rule NORMALIZATION_SYNONYMS"
  by code_simp

lemma normalize_text_trimmed_lowered:
  "trimmed (normalize_text v) \<and> lowered (normalize_text v)"
  unfolding normalize_text_def
  by (rule apply_synonyms_keeps [OF shipped_rules_clean])
     (simp_all add: trimmed_lower strip_trimmed lowered_lower)

lemma apply_synonyms_absent:
  "list_all (\<lambda>(old, new). \<not> sublist old s) rules \<Longrightarrow> apply_synonyms rules s = s"
  by (induction rules) auto

lemma normalize_text_fixed:
  assumes "list_all (\<lambda>(old, new). \<not> sublist old (normalize_text v)) NORMALIZATION_SYNONYMS"
  shows "normalize_text (Some (normalize_text v)) = normalize_text v"
proof -
  let ?x = "normalize_text v"
  have "lower (strip ?x) = ?x"
    using normalize_text_trimmed_lowered [of v] by (simp add: trimmed_strip lower_lowered)
  then have "normalize_text (Some ?x) = apply_synonyms NORMALIZATION_SYNONYMS ?x"
    by (simp add: normalize_text_def)
  with apply_synonyms_absent [OF assms] show ?thesis by simp
qed

subsection \<open>The shipped table\<close>

lemma shipped_overlaps:
  "no_overlap ''exterior'' ''external''" "no_overlap ''exterior'' ''internal''"
  "no_overlap ''exterior'' ''slab''" "no_overlap ''exterior'' ''cmu''"
  "no_overlap ''exterior'' ''external wall''" "no_overlap ''exterior'' ''internal wall''"
  "no_overlap ''interior'' ''internal''"
  "no_overlap ''interior'' ''slab''" "no_overlap ''interior'' ''cmu''"
  "no_overlap ''interior'' ''external wall''" "no_overlap ''interior'' ''internal wall''"
  "no_overlap ''masonry'' ''slab''" "no_overlap ''masonry'' ''cmu''"
  "no_overlap ''masonry'' ''external wall''" "no_overlap ''masonry'' ''internal wall''"
  "no_overlap ''ext wall'' ''slab''" "no_overlap ''ext wall'' ''cmu''"
  "no_overlap ''ext wall'' ''external wall''" "no_overlap ''ext wall'' ''internal wall''"
  "no_overlap ''int wall'' ''slab''" "no_overlap ''int wall'' ''cmu''"
  "no_overlap ''int wall'' ''external wall''" "no_overlap ''int wall'' ''internal wall''"
  by code_simp+

lemma shipped_rules_split:
  "NORMALIZATION_SYNONYMS = [] @ (''exterior'', ''external'') #
     [(''interior'', ''internal''), (''concrete slab'', ''slab''), (''masonry'', ''cmu''),
      (''ext wall'', ''external wall''), (''int wall'', ''internal wall'')]"
  "NORMALIZATION_SYNONYMS = [(''exterior'', ''external'')] @ (''interior'', ''internal'') #
     [(''concrete slab'', ''slab''), (''masonry'', ''cmu''),
      (''ext wall'', ''external wall''), (''int wall'', ''internal wall'')]"
  "NORMALIZATION_SYNONYMS = [(''exterior'', ''external''), (''interior'', ''internal''),
      (''concrete slab'', ''slab'')] @ (''masonry'', ''cmu'') #
     [(''ext wall'', ''external wall''), (''int wall'', ''internal wall'')]"
  "NORMALIZATION_SYNONYMS = [(''exterior'', ''external''), (''interior'', ''internal''),
      (''concrete slab'', ''slab''), (''masonry'', ''cmu'')] @ (''ext wall'', ''external wall'') #
     [(''int wall'', ''internal wall'')]"
  "NORMALIZATION_SYNONYMS = [(''exterior'', ''external''), (''interior'', ''internal''),
      (''concrete slab'', ''slab''), (''masonry'', ''cmu''),
      (''ext wall'', ''external wall'')] @ (''int wall'', ''internal wall'') # []"
  by (simp_all add: NORMALIZATION_SYNONYMS_def)

lemma exterior_gone: "\<not> sublist ''exterior'' (normalize_text v)"
  unfolding normalize_text_def shipped_rules_split(1)
  by (rule pattern_gone) (simp_all add: shipped_overlaps)

lemma interior_gone: "\<not> sublist ''interior'' (normalize_text v)"
  unfolding normalize_text_def shipped_rules_split(2)
  by (rule pattern_gone) (simp_all add: shipped_overlaps)

lemma masonry_gone: "\<not> sublist ''masonry'' (normalize_text v)"
  unfolding normalize_text_def shipped_rules_split(3)
  by (rule pattern_gone) (simp_all add: shipped_overlaps)

lemma ext_wall_gone: "\<not> sublist ''ext wall'' (normalize_text v)"
  unfolding normalize_text_def shipped_rules_split(4)
  by (rule pattern_gone) (simp_all add: shipped_overlaps)

lemma int_wall_gone: "\<not> sublist ''int wall'' (normalize_text v)"
  unfolding normalize_text_def shipped_rules_split(5)
  by (rule pattern_gone) (simp_all add: shipped_overlaps)

lemmas shipped_patterns_gone =
  exterior_gone interior_gone masonry_gone ext_wall_gone int_wall_gone

lemma normalize_text_changes:
  assumes "sublist ''concrete slab'' (normalize_text v)"
  shows "normalize_text (Some (normalize_text v)) \<noteq> normalize_text v"
proof -
  let ?x = "normalize_text v"
  let ?y = "replace ?x ''concrete slab'' ''slab''"
  have "lower (strip ?x) = ?x"
    using normalize_text_trimmed_lowered [of v] by (simp add: trimmed_strip lower_lowered)
  then have n: "normalize_text (Some ?x) = apply_synonyms NORMALIZATION_SYNONYMS ?x"
    by (simp add: normalize_text_def)
  have ne: "''concrete slab'' \<noteq> []" by simp
  have g4: "\<not> sublist ''masonry'' ?y"
    using sublist_replace [OF ne shipped_overlaps(12), of ?x] masonry_gone [of v] by auto
  have g5: "\<not> sublist ''ext wall'' ?y"
    using sublist_replace [OF ne shipped_overlaps(16), of ?x] ext_wall_gone [of v] by auto
  have g6: "\<not> sublist ''int wall'' ?y"
    using sublist_replace [OF ne shipped_overlaps(20), of ?x] int_wall_gone [of v] by auto
  have "apply_synonyms NORMALIZATION_SYNONYMS ?x = ?y"
    unfolding NORMALIZATION_SYNONYMS_def apply_synonyms.simps
    by (simp only: exterior_gone [of v] interior_gone [of v] assms g4 g5 g6 if_True if_False)
  moreover have "length ?y < length ?x"
    by (rule length_replace_less [OF _ _ assms]) simp_all
  ultimately show ?thesis using n by auto
qed

subsection \<open>The rule that rebuilds its pattern\<close>

lemma sublist_trans: "sublist xs ys \<Longrightarrow> sublist ys zs \<Longrightarrow> sublist xs zs"
  unfolding sublist_def by (metis append.assoc)

lemma nested_overlaps:
  "no_overlap ''concrete concrete slab'' ''external''"
  "no_overlap ''concrete concrete slab'' ''internal''"
  "no_overlap ''concrete concrete slab'' ''exterior''"
  "no_overlap ''concrete concrete slab'' ''interior''"
  "no_overlap ''concrete slab'' ''cmu''"
  "no_overlap ''concrete slab'' ''external wall''"
  "no_overlap ''concrete slab'' ''internal wall''"
  "no_overlap ''concrete slab'' ''masonry''"
  "no_overlap ''concrete slab'' ''ext wall''"
  "no_overlap ''concrete slab'' ''int wall''"
  by code_simp+

lemma slab_rebuilds: "rebuilds ''concrete '' ''concrete slab'' ''slab''"
  by code_simp

lemma shipped_rules_parts:
  "NORMALIZATION_SYNONYMS =
     [(''exterior'', ''external''), (''interior'', ''internal'')]
     @ [(''concrete slab'', ''slab'')]
     @ [(''masonry'', ''cmu''), (''ext wall'', ''external wall''),
        (''int wall'', ''internal wall'')]"
  by (simp add: NORMALIZATION_SYNONYMS_def)

lemma first_rules_nested:
  "sublist ''concrete concrete slab''
     (apply_synonyms [(''exterior'', ''external''), (''interior'', ''internal'')] s)
   \<longleftrightarrow> sublist ''concrete concrete slab'' s"
proof
  assume "sublist ''concrete concrete slab''
     (apply_synonyms [(''exterior'', ''external''), (''interior'', ''internal'')] s)"
  then show "sublist ''concrete concrete slab'' s"
    using pattern_stays_absent [of "''concrete concrete slab''"
        "[(''exterior'', ''external''), (''interior'', ''internal'')]" s]
    by (auto simp: nested_overlaps simp del: apply_synonyms.simps)
next
  assume "sublist ''concrete concrete slab'' s"
  then show "sublist ''concrete concrete slab''
     (apply_synonyms [(''exterior'', ''external''), (''interior'', ''internal'')] s)"
    by (intro pattern_stays_present) (simp_all add: nested_overlaps)
qed

lemma slab_rule_nested:
  "sublist ''concrete slab'' (apply_synonyms [(''concrete slab'', ''slab'')] s)
   \<longleftrightarrow> sublist ''concrete concrete slab'' s"
proof (cases "sublist ''concrete slab'' s")
  case True
  then have r: "apply_synonyms [(''concrete slab'', ''slab'')] s
      = replace s ''concrete slab'' ''slab''" by simp
  show ?thesis
    unfolding r
    using nested_pattern_kept [OF slab_rebuilds, of s]
      nested_pattern_origin [OF slab_rebuilds, of s] by auto
next
  case False
  then have r: "apply_synonyms [(''concrete slab'', ''slab'')] s = s" by simp
  have "sublist ''concrete slab'' ''concrete concrete slab''" by code_simp
  with False have "\<not> sublist ''concrete concrete slab'' s"
    using sublist_trans by blast
  with False show ?thesis unfolding r by simp
qed

lemma last_rules_slab:
  "sublist ''concrete slab''
     (apply_synonyms [(''masonry'', ''cmu''), (''ext wall'', ''external wall''),
        (''int wall'', ''internal wall'')] s)
   \<longleftrightarrow> sublist ''concrete slab'' s"
proof
  assume "sublist ''concrete slab''
     (apply_synonyms [(''masonry'', ''cmu''), (''ext wall'', ''external wall''),
        (''int wall'', ''internal wall'')] s)"
  then show "sublist ''concrete slab'' s"
    using pattern_stays_absent [of "''concrete slab''"
        "[(''masonry'', ''cmu''), (''ext wall'', ''external wall''),
          (''int wall'', ''internal wall'')]" s]
    by (auto simp: nested_overlaps simp del: apply_synonyms.simps)
next
  assume "sublist ''concrete slab'' s"
  then show "sublist ''concrete slab''
     (apply_synonyms [(''masonry'', ''cmu''), (''ext wall'', ''external wall''),
        (''int wall'', ''internal wall'')] s)"
    by (intro pattern_stays_present) (simp_all add: nested_overlaps)
qed

lemma normalize_text_nested:
  "sublist ''concrete slab'' (normalize_text v)
   \<longleftrightarrow> sublist ''concrete concrete slab''
         (lower (strip (case v of None \<Rightarrow> [] | Some s \<Rightarrow> s)))"
proof -
  have arg: "(case v of None \<Rightarrow> [] | Some t \<Rightarrow> if t = [] then [] else t)
      = (case v of None \<Rightarrow> [] | Some s \<Rightarrow> s)"
    by (simp split: option.splits)
  show ?thesis
    unfolding normalize_text_def arg shipped_rules_parts apply_synonyms_append
      last_rules_slab slab_rule_nested first_rules_nested ..
qed


subsection \<open>Trimming code points\<close>

lemma py_isspace_whitespace: "py_isspace = whitespace"
proof
  fix c :: nat
  have r: "\<And>a b. (a \<le> c \<and> c \<le> b) \<longleftrightarrow> c \<in> set [a..<Suc b]" by auto
  show "py_isspace c = whitespace c"
    unfolding whitespace_def r py_isspace_def WHITESPACE_def by auto
qed

lemma py_strip_trim: "py_strip s = trim s"
proof -
  let ?P = whitespace
  let ?n = "length (takeWhile ?P s)"
  let ?t = "dropWhile ?P s"
  have t: "?t = drop ?n s" by (rule dropWhile_eq_drop)
  have rear: "rev (dropWhile ?P (rev ?t)) = take (length ?t - length (takeWhile ?P (rev ?t))) ?t"
    by (subst dropWhile_eq_drop) (simp add: rev_drop)
  show ?thesis
  proof (cases "?t = []")
    case True
    then have "length s \<le> ?n" unfolding t by simp
    then have "trim s = []" by (simp add: trim_def Let_def)
    moreover have "py_strip s = []" unfolding py_strip_def py_isspace_whitespace True by simp
    ultimately show ?thesis by simp
  next
    case False
    then have "\<not> ?P (hd ?t)" by (rule hd_dropWhile)
    moreover have "hd ?t \<in> set (rev ?t)" using False by simp
    ultimately have "takeWhile ?P (rev ?t @ rev (takeWhile ?P s)) = takeWhile ?P (rev ?t)"
      by (rule takeWhile_append1 [rotated])
    moreover have "rev ?t @ rev (takeWhile ?P s) = rev s"
      by (simp flip: rev_append)
    ultimately have m: "takeWhile ?P (rev s) = takeWhile ?P (rev ?t)" by simp
    have "length ?t = length s - ?n" unfolding t by simp
    with rear m show ?thesis
      by (simp add: py_strip_def py_isspace_whitespace trim_def Let_def t)
  qed
qed

lemma py_strip_parts:
  "\<exists>l r. s = l @ py_strip s @ r \<and> list_all whitespace l \<and> list_all whitespace r"
proof -
  let ?P = whitespace
  let ?t = "dropWhile ?P s"
  have "s = takeWhile ?P s @ ?t" by simp
  moreover have "rev ?t = takeWhile ?P (rev ?t) @ dropWhile ?P (rev ?t)" by simp
  then have "?t = rev (dropWhile ?P (rev ?t)) @ rev (takeWhile ?P (rev ?t))"
    by (metis rev_append rev_rev_ident)
  ultimately have "s = takeWhile ?P s @ py_strip s @ rev (takeWhile ?P (rev ?t))"
    by (simp add: py_strip_def py_isspace_whitespace)
  moreover have "list_all ?P (takeWhile ?P s)"
    by (simp add: list_all_iff) (metis set_takeWhileD)
  moreover have "list_all ?P (rev (takeWhile ?P (rev ?t)))"
    by (simp add: list_all_iff) (metis set_takeWhileD)
  ultimately show ?thesis by blast
qed

lemma py_strip_ends:
  "py_strip s = [] \<or> (\<not> whitespace (hd (py_strip s)) \<and> \<not> whitespace (last (py_strip s)))"
proof -
  let ?P = whitespace
  define t where "t = dropWhile ?P s"
  define u where "u = dropWhile ?P (rev t)"
  have t: "t = [] \<or> \<not> ?P (hd t)" unfolding t_def by (metis hd_dropWhile)
  have u: "u = [] \<or> \<not> ?P (hd u)" unfolding u_def by (metis hd_dropWhile)
  have s: "py_strip s = rev u" by (simp add: py_strip_def py_isspace_whitespace t_def u_def)
  show ?thesis
  proof (cases "u = []")
    case True
    then show ?thesis by (simp add: s)
  next
    case False
    have "suffix u (rev t)" unfolding u_def by (rule suffix_dropWhile)
    then obtain v where v: "rev t = v @ u" by (auto simp: suffix_def)
    with False have "last u = last (rev t)" by simp
    also have "\<dots> = hd t" by (rule last_rev)
    finally have "last u = hd t" .
    moreover have "t \<noteq> []" using v False by auto
    ultimately have "\<not> ?P (last u)" using t by simp
    moreover have "\<not> ?P (hd u)" using u False by simp
    ultimately show ?thesis using False by (simp add: s hd_rev last_rev)
  qed
qed

subsection \<open>Lowercasing on ASCII\<close>

lemma py_lower_char_ascii: "c < 0x80 \<Longrightarrow> py_lower_char c = [ascii_lowercase c]"
proof -
  assume c: "c < 0x80"
  consider "c < 0x41" | "0x41 \<le> c" "c \<le> 0x5A" | "0x5A < c"
    by linarith
  then have "lower_run LOWER_RUNS c = (if 0x41 \<le> c \<and> c \<le> 0x5A then Some (c + 0x20) else None)"
  proof cases
    case 1
    then show ?thesis by (simp add: LOWER_RUNS_def)
  next
    case 2
    then show ?thesis by (simp add: LOWER_RUNS_def)
  next
    case 3
    with c show ?thesis by (simp add: LOWER_RUNS_def)
  qed
  with c show ?thesis by (simp add: py_lower_char_def ascii_lowercase_def)
qed

lemma lower_from_ascii:
  "list_all (\<lambda>c. c < 0x80) s \<Longrightarrow> lower_from seen s = map ascii_lowercase s"
  by (induction s arbitrary: seen) (simp_all add: py_lower_char_ascii)

lemma py_lower_ascii:
  "list_all (\<lambda>c. c < 0x80) s \<Longrightarrow> py_lower s = map ascii_lowercase s"
  by (simp add: py_lower_def lower_from_ascii)

subsection \<open>The refinement\<close>

lemma SYNONYMS_nonempty: "\<forall>(old, new) \<in> set SYNONYMS. old \<noteq> []"
  by (simp add: SYNONYMS_def NORMALIZATION_SYNONYMS_def code_points_def)

lemma normalize_unicode_spec: "normalize_unicode v = normalize_spec v"
proof -
  have arg: "(case v of None \<Rightarrow> [] | Some t \<Rightarrow> if t = [] then [] else t)
      = (case v of None \<Rightarrow> [] | Some s \<Rightarrow> s)"
    by (simp split: option.splits)
  show ?thesis
    unfolding normalize_unicode_def normalize_spec_def arg py_strip_trim
    by (rule apply_synonyms_eq_rules [OF SYNONYMS_nonempty])
qed

lemma apply_synonyms_Nil: "\<forall>(old, new) \<in> set rules. old \<noteq> [] \<Longrightarrow> apply_synonyms rules [] = []"
  by (induction rules) auto

lemma normalize_unicode_empty: "normalize_unicode None = []" "normalize_unicode (Some []) = []"
  by (simp_all add: normalize_unicode_def py_strip_def py_lower_def
      apply_synonyms_Nil [OF SYNONYMS_nonempty])

subsection \<open>The byte-level normalizer on ASCII\<close>

lemma prefix_map_inj: "inj f \<Longrightarrow> prefix (map f xs) (map f ys) \<longleftrightarrow> prefix xs ys"
proof (induction xs arbitrary: ys)
  case Nil
  then show ?case by simp
next
  case (Cons x xs)
  then show ?case by (cases ys) (auto simp: inj_eq)
qed

lemma sublist_map_inj: "inj f \<Longrightarrow> sublist (map f xs) (map f ys) \<longleftrightarrow> sublist xs ys"
proof (induction ys)
  case Nil
  then show ?case by simp
next
  case (Cons y ys)
  have "sublist (map f xs) (map f (y # ys))
      \<longleftrightarrow> prefix (map f xs) (map f (y # ys)) \<or> sublist (map f xs) (map f ys)"
    by (simp add: sublist_Cons_right)
  also have "\<dots> \<longleftrightarrow> prefix xs (y # ys) \<or> sublist xs ys"
    using Cons.IH [OF Cons.prems] prefix_map_inj [OF Cons.prems, of xs "y # ys"] by simp
  finally show ?case by (simp add: sublist_Cons_right)
qed

lemma replace_map:
  "inj f \<Longrightarrow> replace (map f s) (map f old) (map f new) = map f (replace s old new)"
proof (induction s old new rule: replace.induct)
  case (1 old new)
  then show ?case by simp
next
  case (2 c cs old new)
  note inj = \<open>inj f\<close>
  show ?case
  proof (cases "old = []")
    case True
    with 2(1) [OF True inj] show ?thesis by simp
  next
    case False
    then have ne: "map f old \<noteq> []" by simp
    have p: "prefix (map f old) (f c # map f cs) \<longleftrightarrow> prefix old (c # cs)"
      using prefix_map_inj [OF inj, of old "c # cs"] by simp
    show ?thesis
    proof (cases "prefix old (c # cs)")
      case True
      let ?rest = "drop (length old) (c # cs)"
      have "drop (length (map f old)) (map f (c # cs)) = map f ?rest"
        by (simp only: drop_map length_map)
      then have d: "drop (length (map f old)) (f c # map f cs) = map f ?rest"
        by (simp only: list.map)
      have "prefix (map f old) (f c # map f cs)" using True p by simp
      then have "replace (f c # map f cs) (map f old) (map f new)
          = map f new @ replace (map f ?rest) (map f old) (map f new)"
        unfolding d [symmetric] by (rule replace_Cons_prefix [OF ne])
      also have "\<dots> = map f new @ map f (replace ?rest old new)"
        by (simp only: 2(2) [OF False True inj])
      also have "\<dots> = map f (new @ replace ?rest old new)"
        by (simp only: map_append)
      also have "\<dots> = map f (replace (c # cs) old new)"
        by (simp only: replace_Cons_prefix [OF False True])
      finally show ?thesis by (simp only: list.map)
    next
      case np: False
      have "\<not> prefix (map f old) (f c # map f cs)" using np p by simp
      then have "replace (f c # map f cs) (map f old) (map f new)
          = f c # replace (map f cs) (map f old) (map f new)"
        by (rule replace_Cons_other [OF ne])
      also have "\<dots> = f c # map f (replace cs old new)"
        by (simp only: 2(3) [OF False np inj])
      also have "\<dots> = map f (c # replace cs old new)"
        by (simp only: list.map)
      also have "\<dots> = map f (replace (c # cs) old new)"
        by (simp only: replace_Cons_other [OF False np])
      finally show ?thesis by (simp only: list.map)
    qed
  qed
qed

lemma apply_synonyms_map:
  "inj f \<Longrightarrow>
   apply_synonyms (map (\<lambda>(old, new). (map f old, map f new)) rules) (map f s)
     = map f (apply_synonyms rules s)"
proof (induction rules arbitrary: s)
  case Nil
  then show ?case by simp
next
  case (Cons rule rules)
  obtain old new where rule: "rule = (old, new)" by (cases rule)
  have "(if sublist (map f old) (map f s) then replace (map f s) (map f old) (map f new)
         else map f s)
      = map f (if sublist old s then replace s old new else s)"
    using sublist_map_inj [OF Cons.prems, of old s] replace_map [OF Cons.prems, of s old new]
    by simp
  then show ?case using Cons.IH [OF Cons.prems] by (simp add: rule)
qed

lemma isspace_ascii: "of_char c < (0x80::nat) \<Longrightarrow> py_isspace (of_char c) = isspace c"
  by (auto simp: py_isspace_def WHITESPACE_def isspace_def Let_def)

lemma ascii_lowercase_of_char: "ascii_lowercase (of_char c) = of_char (lower_char c)"
  by (simp add: ascii_lowercase_def lower_char_def Let_def)

lemma is_ascii_code_points: "is_ascii t \<longleftrightarrow> list_all (\<lambda>c. c < 0x80) (code_points t)"
  by (simp add: is_ascii_def code_points_def list_all_iff)

lemma strip_code_points:
  assumes "is_ascii t"
  shows "py_strip (code_points t) = code_points (strip t)"
proof -
  have a: "\<And>c. c \<in> set t \<Longrightarrow> py_isspace (of_char c) = isspace c"
    using assms by (simp add: is_ascii_def list_all_iff isspace_ascii)
  have 1: "dropWhile (py_isspace \<circ> of_char) t = dropWhile isspace t"
    by (rule dropWhile_cong) (simp_all add: a)
  have "dropWhile (py_isspace \<circ> of_char) (rev (dropWhile isspace t))
      = dropWhile isspace (rev (dropWhile isspace t))"
    by (rule dropWhile_cong) (auto dest: set_dropWhileD simp: a)
  with 1 show ?thesis
    by (simp add: py_strip_def strip_def code_points_def dropWhile_map rev_map)
qed

lemma lower_code_points:
  assumes "is_ascii t"
  shows "py_lower (code_points t) = code_points (lower t)"
proof -
  have "py_lower (code_points t) = map ascii_lowercase (code_points t)"
    using assms by (intro py_lower_ascii) (simp add: is_ascii_code_points)
  then show ?thesis
    by (simp add: code_points_def lower_def ascii_lowercase_of_char)
qed

lemma is_ascii_strip: "is_ascii t \<Longrightarrow> is_ascii (strip t)"
proof -
  assume "is_ascii t"
  moreover have "set (strip t) \<subseteq> set t"
    by (auto simp: strip_def dest!: set_dropWhileD)
  ultimately show ?thesis by (auto simp: is_ascii_def list_all_iff)
qed

lemma normalize_text_ascii:
  assumes "is_ascii t"
  shows "normalize_unicode (Some (code_points t)) = code_points (normalize_text (Some t))"
proof -
  have "py_lower (py_strip (code_points t)) = code_points (lower (strip t))"
    using strip_code_points [OF assms] lower_code_points [OF is_ascii_strip [OF assms]] by simp
  moreover have "(if code_points t = [] then [] else code_points t) = code_points t" by simp
  moreover have "(if t = [] then [] else t) = t" by simp
  ultimately show ?thesis
    unfolding normalize_unicode_def normalize_text_def SYNONYMS_def code_points_def
    using apply_synonyms_map [OF inj_of_char, of NORMALIZATION_SYNONYMS "lower (strip t)"]
    by (simp add: code_points_def)
qed

subsection \<open>Values outside ASCII\<close>

lemma py_isspace_values:
  "py_isspace 0xA0" "py_isspace 0x2003" "py_isspace 0x3000" "py_isspace 0x85" "py_isspace 0x1F"
  "\<not> py_isspace 0x45" "\<not> py_isspace 0xC9" "\<not> py_isspace 0x200B"
  by (simp_all add: py_isspace_def WHITESPACE_def)

lemma py_strip_value: "py_strip [0xA0, 0x2003, 0x45, 0x20, 0xC9, 0x3000, 0x9] = [0x45, 0x20, 0xC9]"
  by (simp add: py_strip_def py_isspace_def WHITESPACE_def)

lemma py_lower_char_values:
  "py_lower_char 0xC9 = [0xE9]" "py_lower_char 0x130 = [0x69, 0x307]"
  "py_lower_char 0x178 = [0xFF]" "py_lower_char 0x1C5 = [0x1C6]"
  "py_lower_char 0x416 = [0x436]" "py_lower_char 0xE9 = [0xE9]"
  by (simp_all add: py_lower_char_def LOWER_RUNS_def)

lemma case_values:
  "cased 0x41" "cased 0x42" "\<not> case_ignorable 0x41" "\<not> case_ignorable 0x42"
  "\<not> cased 0x20" "\<not> case_ignorable 0x20" "case_ignorable 0x27"
  by (simp_all add: cased_def case_ignorable_def CASED_def CASE_IGNORABLE_def)

lemma py_lower_values:
  "py_lower [0xC9, 0x58] = [0xE9, 0x78]"
  "py_lower [0x130] = [0x69, 0x307]"
  "py_lower [0x3A3] = [0x3C3]"
  "py_lower [0x41, 0x3A3] = [0x61, 0x3C2]"
  "py_lower [0x41, 0x27, 0x3A3, 0x27, 0x20] = [0x61, 0x27, 0x3C2, 0x27, 0x20]"
  "py_lower [0x41, 0x3A3, 0x42] = [0x61, 0x3C3, 0x62]"
  by (simp_all add: py_lower_def cased_follows_def case_values py_lower_char_values
      py_lower_char_ascii ascii_lowercase_def)

subsection \<open>Values of the normalizer\<close>

lemma apply_synonyms_code_points:
  "apply_synonyms SYNONYMS (code_points t) = code_points (apply_synonyms NORMALIZATION_SYNONYMS t)"
  unfolding SYNONYMS_def code_points_def
  by (rule apply_synonyms_map [OF inj_of_char])

lemma lower_from_no_sigma:
  "0x3A3 \<notin> set s \<Longrightarrow> lower_from seen s = concat (map py_lower_char s)"
  by (induction s arbitrary: seen) simp_all

lemma py_lower_no_sigma: "0x3A3 \<notin> set s \<Longrightarrow> py_lower s = concat (map py_lower_char s)"
  by (simp add: py_lower_def lower_from_no_sigma)

lemma py_lower_char_latin1: "c < 0x100 \<Longrightarrow> py_lower_char c = [latin1_lowercase c]"
proof -
  assume c: "c < 0x100"
  consider "c < 0x41" | "0x41 \<le> c" "c \<le> 0x5A" | "0x5A < c" "c < 0xC0"
    | "0xC0 \<le> c" "c \<le> 0xD6" | "c = 0xD7" | "0xD8 \<le> c" "c \<le> 0xDE" | "0xDE < c"
    by linarith
  then have "lower_run LOWER_RUNS c
      = (if (0x41 \<le> c \<and> c \<le> 0x5A) \<or> (0xC0 \<le> c \<and> c \<le> 0xDE \<and> c \<noteq> 0xD7)
         then Some (c + 0x20) else None)"
  proof cases
    case 1
    then show ?thesis by (simp add: LOWER_RUNS_def)
  next
    case 2
    then show ?thesis by (simp add: LOWER_RUNS_def)
  next
    case 3
    then show ?thesis by (simp add: LOWER_RUNS_def)
  next
    case 4
    then show ?thesis by (simp add: LOWER_RUNS_def)
  next
    case 5
    then show ?thesis by (simp add: LOWER_RUNS_def)
  next
    case 6
    then show ?thesis by (simp add: LOWER_RUNS_def)
  next
    case 7
    with c show ?thesis by (simp add: LOWER_RUNS_def)
  qed
  with c show ?thesis by (simp add: py_lower_char_def latin1_lowercase_def)
qed

lemma py_lower_latin1:
  assumes "list_all (\<lambda>c. c < 0x100) s"
  shows "py_lower s = map latin1_lowercase s"
proof -
  from assms have "0x3A3 \<notin> set s" by (auto simp: list_all_iff)
  then have "py_lower s = concat (map py_lower_char s)" by (rule py_lower_no_sigma)
  also have "map py_lower_char s = map (\<lambda>c. [latin1_lowercase c]) s"
    using assms by (simp add: list_all_iff py_lower_char_latin1)
  also have "concat (map (\<lambda>c. [latin1_lowercase c]) s) = map latin1_lowercase s"
    by (induction s) simp_all
  finally show ?thesis .
qed

lemma normalize_text_values:
  "normalize_text (Some '' Exterior Masonry '') = ''external cmu''"
  "apply_synonyms NORMALIZATION_SYNONYMS (CHR 0xE9 # ''xterior'') = CHR 0xE9 # ''xterior''"
  "apply_synonyms NORMALIZATION_SYNONYMS (''exterior masonry '' @ [CHR 0xE9])
     = ''external cmu '' @ [CHR 0xE9]"
  by code_simp+

lemma normalize_unicode_accented:
  "normalize_unicode (Some [0xC9, 0x58, 0x54, 0x45, 0x52, 0x49, 0x4F, 0x52])
     = [0xE9, 0x78, 0x74, 0x65, 0x72, 0x69, 0x6F, 0x72]"
proof -
  let ?s = "[0xC9, 0x58, 0x54, 0x45, 0x52, 0x49, 0x4F, 0x52] :: nat list"
  have "py_strip ?s = ?s"
    by (simp add: py_strip_def py_isspace_whitespace whitespace_def)
  moreover have "py_lower ?s = code_points (CHR 0xE9 # ''xterior'')"
    by (simp add: py_lower_no_sigma py_lower_char_ascii ascii_lowercase_def py_lower_char_values
        code_points_def)
  ultimately have "normalize_unicode (Some ?s)
      = code_points (apply_synonyms NORMALIZATION_SYNONYMS (CHR 0xE9 # ''xterior''))"
    by (simp add: normalize_unicode_def apply_synonyms_code_points)
  then show ?thesis
    unfolding normalize_text_values by (simp add: code_points_def)
qed

lemma normalize_unicode_no_break_space:
  "normalize_unicode (Some [0xA0, 0x45, 0x78, 0x74, 0x65, 0x72, 0x69, 0x6F, 0x72, 0x20,
      0x4D, 0x41, 0x53, 0x4F, 0x4E, 0x52, 0x59, 0x20, 0xC9, 0x3000])
     = [0x65, 0x78, 0x74, 0x65, 0x72, 0x6E, 0x61, 0x6C, 0x20, 0x63, 0x6D, 0x75, 0x20, 0xE9]"
proof -
  let ?s = "[0xA0, 0x45, 0x78, 0x74, 0x65, 0x72, 0x69, 0x6F, 0x72, 0x20,
      0x4D, 0x41, 0x53, 0x4F, 0x4E, 0x52, 0x59, 0x20, 0xC9, 0x3000] :: nat list"
  let ?t = "[0x45, 0x78, 0x74, 0x65, 0x72, 0x69, 0x6F, 0x72, 0x20,
      0x4D, 0x41, 0x53, 0x4F, 0x4E, 0x52, 0x59, 0x20, 0xC9] :: nat list"
  have "py_strip ?s = ?t"
    by (simp add: py_strip_def py_isspace_whitespace whitespace_def)
  moreover have "py_lower ?t = code_points (''exterior masonry '' @ [CHR 0xE9])"
    by (simp add: py_lower_no_sigma py_lower_char_ascii ascii_lowercase_def py_lower_char_values
        code_points_def)
  ultimately have "normalize_unicode (Some ?s)
      = code_points (apply_synonyms NORMALIZATION_SYNONYMS (''exterior masonry '' @ [CHR 0xE9]))"
    by (simp add: normalize_unicode_def apply_synonyms_code_points)
  then show ?thesis
    unfolding normalize_text_values by (simp add: code_points_def)
qed

section \<open>The claims\<close>

text \<open>Claim C9: the score of \<open>score_match\<close>, for every normalized query triple and
  every detail (a field of which may be absent or empty), lies between 0.0 and 1.0, and is
  the sum of the three weighted contributions of the specification, clamped into that
  interval.\<close>

theorem score_match_range:
  "0 \<le> fst (score_match q d) \<and> fst (score_match q d) \<le> 1
   \<and> fst (score_match q d) =
       max 0 (min (field_contribution 0.45 (in_host q) (detail_value (d_host d))
                   + field_contribution 0.35 (in_adjacent q) (detail_value (d_adjacent d))
                   + exposure_contribution 0.20 (in_exposure q) (detail_value (d_exposure d)))
                1)"
  by (simp add: score_match_eq)

text \<open>Claim C8: on the empty library, for every query, the match is the sentinel
  result: \<open>suggested_detail\<close> "No match found", confidence 0.0 and the reason
  "No samples available". The embedding has no error branch: nothing is raised.\<close>

theorem match_empty_library:
  "match_with [] payload =
     \<lparr>suggested_detail = ''No match found'', confidence = 0.0, reason = ''No samples available''\<rparr>"
  by (simp add: match_with_def best_of_def)

lemma normalize_text_empty: "normalize_text (Some []) = []"
  by code_simp

lemma normalize_text_None: "normalize_text None = []"
  by code_simp

lemma input_norm_empty:
  "input_norm \<lparr>host_element = [], adjacent_element = [], exposure = []\<rparr>
     = \<lparr>in_host = [], in_adjacent = [], in_exposure = []\<rparr>"
  by (simp add: input_norm_def normalize_text_empty)

lemma score_match_empty_query:
  "score_match \<lparr>in_host = [], in_adjacent = [], in_exposure = []\<rparr> d
     = (0, [''Host differs'', ''Adjacent element differs'', ''Exposure unknown''])"
  by (simp add: score_match_eq field_contribution_def exposure_contribution_def
      field_reason_def exposure_reason_def)

text \<open>Claim C7: for the query of three empty strings and a library with at
  least one detail, the loop keeps the first detail with score 0.0 and the reasons
  "Host differs", "Adjacent element differs", "Exposure unknown", in that order, and the
  match has confidence 0.0.\<close>

theorem match_all_empty_query:
  "best_of (d # ds) \<lparr>host_element = '''', adjacent_element = '''', exposure = ''''\<rparr>
     = (Some d, 0.0, [''Host differs'', ''Adjacent element differs'', ''Exposure unknown''])
   \<and> match_with (d # ds) \<lparr>host_element = '''', adjacent_element = '''', exposure = ''''\<rparr>
     = \<lparr>suggested_detail = d_title d, confidence = 0.0,
        reason = ''Low confidence: Host differs; Adjacent element differs; Exposure unknown''\<rparr>"
proof -
  let ?q = "\<lparr>in_host = [], in_adjacent = [], in_exposure = []\<rparr>"
  let ?rs = "[''Host differs'', ''Adjacent element differs'', ''Exposure unknown'']"
  have "\<forall>e \<in> set ds. fst (score_match ?q e) \<le> 0"
    by (simp add: score_match_empty_query)
  then have "score_every ?q ds (Some d, 0, ?rs) = (Some d, 0, ?rs)"
    by (rule score_every_no_better)
  then have b: "best_of (d # ds) \<lparr>host_element = [], adjacent_element = [], exposure = []\<rparr>
      = (Some d, 0, ?rs)"
    by (simp add: best_of_def input_norm_empty score_match_empty_query)
  have "py_round 0 2 = 0" by (simp add: py_round_def)
  then show ?thesis using b by (simp add: match_with_def)
qed

text \<open>Claim C3: on a non-empty library the match is the detail at the first
  index whose score is maximal: no detail scores more, and every detail before it scores
  strictly less, so of two details of equal maximal score the earlier one is returned.
  The confidence of the match is the score of that detail, rounded to two places.\<close>

theorem match_first_maximum:
  assumes "library \<noteq> []"
  shows "\<exists>i < length library.
      best_of library payload
        = (Some (library ! i), score_match (input_norm payload) (library ! i))
      \<and> suggested_detail (match_with library payload) = d_title (library ! i)
      \<and> confidence (match_with library payload)
          = py_round (fst (score_match (input_norm payload) (library ! i))) 2
      \<and> (\<forall>j < length library. fst (score_match (input_norm payload) (library ! j))
            \<le> fst (score_match (input_norm payload) (library ! i)))
      \<and> (\<forall>j < i. fst (score_match (input_norm payload) (library ! j))
            < fst (score_match (input_norm payload) (library ! i)))"
proof -
  from best_of_first_max [OF assms, of payload] obtain i where i: "i < length library"
    "best_of library payload
        = (Some (library ! i), score_match (input_norm payload) (library ! i))"
    "\<forall>j < length library. fst (score_match (input_norm payload) (library ! j))
            \<le> fst (score_match (input_norm payload) (library ! i))"
    "\<forall>j < i. fst (score_match (input_norm payload) (library ! j))
            < fst (score_match (input_norm payload) (library ! i))"
    by blast
  from match_with_best [OF i(2)] i show ?thesis by (auto simp: py_round_score)
qed

text \<open>Witness: a library in which the first and the last
  detail tie.\<close>

theorem match_first_maximum_witness:
  "[D_003, D_002, D_001] \<noteq> []
   \<and> (\<exists>i < length [D_003, D_002, D_001].
      best_of [D_003, D_002, D_001]
          \<lparr>host_element = ''masonry'', adjacent_element = ''sill'', exposure = ''external''\<rparr>
        = (Some ([D_003, D_002, D_001] ! i),
           score_match (input_norm
             \<lparr>host_element = ''masonry'', adjacent_element = ''sill'', exposure = ''external''\<rparr>)
             ([D_003, D_002, D_001] ! i))
      \<and> suggested_detail (match_with [D_003, D_002, D_001]
          \<lparr>host_element = ''masonry'', adjacent_element = ''sill'', exposure = ''external''\<rparr>)
          = d_title ([D_003, D_002, D_001] ! i))"
proof -
  have ne: "[D_003, D_002, D_001] \<noteq> []" by simp
  from match_first_maximum [OF ne,
      of "\<lparr>host_element = ''masonry'', adjacent_element = ''sill'', exposure = ''external''\<rparr>"]
  show ?thesis by blast
qed

text \<open>Claim C4: on a non-empty library the loop ends with a detail of the library and its
  three reasons, which are the host, adjacent and exposure reasons of the specification in
  that order; the reason of the match is the bucket prefix of the score of that detail
  (High from 0.85, Medium from 0.5 and below 0.85, Low below 0.5) followed by the three
  reasons joined by "; ".\<close>

theorem match_reason_text:
  assumes "library \<noteq> []"
  shows "\<exists>i < length library.
      best_of library payload
        = (Some (library ! i), score_match (input_norm payload) (library ! i))
      \<and> snd (score_match (input_norm payload) (library ! i))
          = [field_reason ''Host'' ''host''
               (in_host (input_norm payload)) (detail_value (d_host (library ! i))),
             field_reason ''Adjacent element'' ''adjacent element''
               (in_adjacent (input_norm payload)) (detail_value (d_adjacent (library ! i))),
             exposure_reason
               (in_exposure (input_norm payload)) (detail_value (d_exposure (library ! i)))]
      \<and> reason (match_with library payload)
          = confidence_prefix (fst (score_match (input_norm payload) (library ! i)))
            @ field_reason ''Host'' ''host''
                (in_host (input_norm payload)) (detail_value (d_host (library ! i)))
            @ ''; ''
            @ field_reason ''Adjacent element'' ''adjacent element''
                (in_adjacent (input_norm payload)) (detail_value (d_adjacent (library ! i)))
            @ ''; ''
            @ exposure_reason
                (in_exposure (input_norm payload)) (detail_value (d_exposure (library ! i)))"
proof -
  from best_of_first_max [OF assms, of payload] obtain i where i: "i < length library"
    "best_of library payload
        = (Some (library ! i), score_match (input_norm payload) (library ! i))"
    by blast
  let ?b = "library ! i"
  have "snd (score_match (input_norm payload) ?b)
          = [field_reason ''Host'' ''host''
               (in_host (input_norm payload)) (detail_value (d_host ?b)),
             field_reason ''Adjacent element'' ''adjacent element''
               (in_adjacent (input_norm payload)) (detail_value (d_adjacent ?b)),
             exposure_reason (in_exposure (input_norm payload)) (detail_value (d_exposure ?b))]"
    by (simp add: score_match_eq)
  moreover have "reason (match_with library payload)
          = confidence_prefix (fst (score_match (input_norm payload) ?b))
            @ field_reason ''Host'' ''host''
                (in_host (input_norm payload)) (detail_value (d_host ?b))
            @ ''; ''
            @ field_reason ''Adjacent element'' ''adjacent element''
                (in_adjacent (input_norm payload)) (detail_value (d_adjacent ?b))
            @ ''; ''
            @ exposure_reason (in_exposure (input_norm payload)) (detail_value (d_exposure ?b))"
    using match_with_best [OF i(2)] by (simp add: score_match_eq)
  ultimately show ?thesis using i by blast
qed

text \<open>Witness: the shipped library.\<close>

theorem match_reason_text_witness:
  "SAMPLE_DETAILS \<noteq> []
   \<and> (\<exists>i < length SAMPLE_DETAILS.
      best_of SAMPLE_DETAILS
          \<lparr>host_element = ''masonry'', adjacent_element = ''sill'', exposure = ''external''\<rparr>
        = (Some (SAMPLE_DETAILS ! i),
           score_match \<lparr>in_host = ''cmu'', in_adjacent = ''sill'', in_exposure = ''external''\<rparr>
             (SAMPLE_DETAILS ! i))
      \<and> reason (match_with SAMPLE_DETAILS
          \<lparr>host_element = ''masonry'', adjacent_element = ''sill'', exposure = ''external''\<rparr>)
          = confidence_prefix (fst (score_match \<lparr>in_host = ''cmu'', in_adjacent = ''sill'',
                in_exposure = ''external''\<rparr> (SAMPLE_DETAILS ! i)))
            @ field_reason ''Host'' ''host'' ''cmu'' (detail_value (d_host (SAMPLE_DETAILS ! i)))
            @ ''; ''
            @ field_reason ''Adjacent element'' ''adjacent element'' ''sill''
                (detail_value (d_adjacent (SAMPLE_DETAILS ! i)))
            @ ''; ''
            @ exposure_reason ''external'' (detail_value (d_exposure (SAMPLE_DETAILS ! i))))"
proof -
  have ne: "SAMPLE_DETAILS \<noteq> []" by (simp add: SAMPLE_DETAILS_def)
  from match_reason_text [OF ne,
      of "\<lparr>host_element = ''masonry'', adjacent_element = ''sill'', exposure = ''external''\<rparr>"]
  show ?thesis unfolding masonry_query_input using ne by auto
qed

text \<open>Claim C1: when the three normalized values of the query are
  non-empty and equal to the normalized host, adjacent and exposure values of a detail of
  the library, \<open>score_match\<close> gives that detail the score 1.0, and the match has confidence
  1.0 and a reason that starts with "High confidence: ". The query ("external wall",
  "slab", "external") selects D-001 of the shipped library, with confidence 1.0 and the
  reason "High confidence: Exact match on host; Exact match on adjacent element; Exact
  match on exposure".\<close>

theorem exact_match_high_confidence:
  assumes "d \<in> set library"
    and "in_host (input_norm payload) = detail_value (d_host d)"
    and "in_host (input_norm payload) \<noteq> []"
    and "in_adjacent (input_norm payload) = detail_value (d_adjacent d)"
    and "in_adjacent (input_norm payload) \<noteq> []"
    and "in_exposure (input_norm payload) = detail_value (d_exposure d)"
    and "in_exposure (input_norm payload) \<noteq> []"
  shows "fst (score_match (input_norm payload) d) = 1.0
    \<and> confidence (match_with library payload) = 1.0
    \<and> prefix ''High confidence: '' (reason (match_with library payload))
    \<and> best_of SAMPLE_DETAILS
         \<lparr>host_element = ''external wall'', adjacent_element = ''slab'', exposure = ''external''\<rparr>
       = (Some D_001, 1.0,
          [''Exact match on host'', ''Exact match on adjacent element'', ''Exact match on exposure''])
    \<and> match_detail
         \<lparr>host_element = ''external wall'', adjacent_element = ''slab'', exposure = ''external''\<rparr>
       = \<lparr>suggested_detail = d_title D_001, confidence = 1.0,
          reason = ''High confidence: Exact match on host; Exact match on adjacent element; Exact match on exposure''\<rparr>"
proof -
  let ?q = "input_norm payload"
  have one: "fst (score_match ?q d) = 1"
    using assms(2-7)
    by (simp add: score_match_eq field_contribution_def exposure_contribution_def)
  from assms(1) have ne: "library \<noteq> []" by auto
  from best_of_first_max [OF ne, of payload] obtain i where i: "i < length library"
    "best_of library payload = (Some (library ! i), score_match ?q (library ! i))"
    "\<forall>j < length library. fst (score_match ?q (library ! j)) \<le> fst (score_match ?q (library ! i))"
    by blast
  from assms(1) obtain k where "k < length library" "library ! k = d"
    by (auto simp: in_set_conv_nth)
  with i(3) one have "1 \<le> fst (score_match ?q (library ! i))" by auto
  with score_match_bounds(2) [of ?q "library ! i"]
  have top: "fst (score_match ?q (library ! i)) = 1" by simp
  have m: "match_with library payload =
     \<lparr>suggested_detail = d_title (library ! i), confidence = 1,
      reason = ''High confidence: '' @ join ''; '' (snd (score_match ?q (library ! i)))\<rparr>"
    using match_with_best [OF i(2)] top by (simp add: confidence_prefix_def)
  have c: "confidence (match_with library payload) = 1" using m by simp
  have r: "prefix ''High confidence: '' (reason (match_with library payload))"
    unfolding m by (simp del: join.simps)
  show ?thesis
    unfolding exact_query_best exact_query_match using one c r by simp
qed

text \<open>Witness: D-002, reached through the trimming,
  the lowercasing and two synonyms.\<close>

theorem exact_match_high_confidence_witness:
  "D_002 \<in> set SAMPLE_DETAILS
   \<and> fst (score_match (input_norm \<lparr>host_element = '' Interior Partition'',
            adjacent_element = ''Concrete Slab'', exposure = ''INTERIOR''\<rparr>) D_002) = 1.0
   \<and> confidence (match_with SAMPLE_DETAILS \<lparr>host_element = '' Interior Partition'',
            adjacent_element = ''Concrete Slab'', exposure = ''INTERIOR''\<rparr>) = 1.0
   \<and> prefix ''High confidence: '' (reason (match_with SAMPLE_DETAILS
         \<lparr>host_element = '' Interior Partition'',
            adjacent_element = ''Concrete Slab'', exposure = ''INTERIOR''\<rparr>))"
proof -
  let ?p = "\<lparr>host_element = '' Interior Partition'',
            adjacent_element = ''Concrete Slab'', exposure = ''INTERIOR''\<rparr>"
  have n: "input_norm ?p
     = \<lparr>in_host = ''internal partition'', in_adjacent = ''slab'', in_exposure = ''internal''\<rparr>"
    by code_simp
  have h1: "D_002 \<in> set SAMPLE_DETAILS" by (simp add: SAMPLE_DETAILS_def)
  have h2: "in_host (input_norm ?p) = detail_value (d_host D_002)"
    and h3: "in_host (input_norm ?p) \<noteq> []"
    and h4: "in_adjacent (input_norm ?p) = detail_value (d_adjacent D_002)"
    and h5: "in_adjacent (input_norm ?p) \<noteq> []"
    and h6: "in_exposure (input_norm ?p) = detail_value (d_exposure D_002)"
    and h7: "in_exposure (input_norm ?p) \<noteq> []"
    by (simp_all add: n shipped_values)
  from exact_match_high_confidence [OF h1 h2 h3 h4 h5 h6 h7] h1 show ?thesis by blast
qed

lemma title_values: "\<forall>d \<in> set SAMPLE_DETAILS. d_title d \<noteq> ''No match found''"
  by (simp add: SAMPLE_DETAILS_def D_001_def D_002_def D_003_def D_004_def D_005_def)

text \<open>Claim C10: with the shipped library the loop always ends
  with a detail of the library and three reasons, so the match is never "No match found":
  its \<open>suggested_detail\<close> is the title of one of the five details.\<close>

theorem shipped_library_always_matches:
  "suggested_detail (match_detail payload) \<in> d_title ` set SAMPLE_DETAILS
   \<and> suggested_detail (match_detail payload) \<noteq> ''No match found''
   \<and> (\<exists>b s rs. best_of SAMPLE_DETAILS payload = (Some b, s, rs)
         \<and> b \<in> set SAMPLE_DETAILS \<and> length rs = 3)"
proof -
  have ne: "SAMPLE_DETAILS \<noteq> []" by (simp add: SAMPLE_DETAILS_def)
  from best_of_first_max [OF ne, of payload] obtain i where i: "i < length SAMPLE_DETAILS"
    "best_of SAMPLE_DETAILS payload
       = (Some (SAMPLE_DETAILS ! i), score_match (input_norm payload) (SAMPLE_DETAILS ! i))"
    by blast
  let ?b = "SAMPLE_DETAILS ! i"
  obtain s rs where sr: "score_match (input_norm payload) ?b = (s, rs)"
    by (cases "score_match (input_norm payload) ?b")
  have mem: "?b \<in> set SAMPLE_DETAILS" using i(1) by simp
  have t: "suggested_detail (match_detail payload) = d_title ?b"
    using match_with_best [OF i(2)] by (simp add: match_detail_def)
  have nt: "d_title ?b \<noteq> ''No match found''"
    using mem title_values by blast
  have "rs = snd (score_match (input_norm payload) ?b)" using sr by simp
  then have len: "length rs = 3" by (simp add: score_match_eq)
  have "best_of SAMPLE_DETAILS payload = (Some ?b, s, rs)" using i(2) sr by simp
  with len mem have "\<exists>b s rs. best_of SAMPLE_DETAILS payload = (Some b, s, rs)
         \<and> b \<in> set SAMPLE_DETAILS \<and> length rs = 3" by blast
  moreover have "suggested_detail (match_detail payload) \<in> d_title ` set SAMPLE_DETAILS"
    unfolding t using mem by (rule imageI)
  ultimately show ?thesis using t nt by simp
qed

text \<open>Claim C2, as stated, fails. For the query ("masonry",
  "sill", "external") the host "cmu" of the query is compared with the host "curtain wall"
  of D-003, not with its adjacent element: the host reason of D-003 is "Host differs",
  D-003 does not score more than D-001, and the match is not D-003.\<close>

theorem masonry_query_counterexample:
  "\<not> fst (score_match (input_norm
         \<lparr>host_element = ''masonry'', adjacent_element = ''sill'', exposure = ''external''\<rparr>) D_001)
       < fst (score_match (input_norm
         \<lparr>host_element = ''masonry'', adjacent_element = ''sill'', exposure = ''external''\<rparr>) D_003)
   \<and> hd (snd (score_match (input_norm
         \<lparr>host_element = ''masonry'', adjacent_element = ''sill'', exposure = ''external''\<rparr>) D_003))
       = ''Host differs''
   \<and> suggested_detail (match_detail
         \<lparr>host_element = ''masonry'', adjacent_element = ''sill'', exposure = ''external''\<rparr>)
       \<noteq> d_title D_003"
  by (simp add: masonry_query_input masonry_query_scores masonry_query_match titles_differ)

text \<open>Claim C2, as amended. For the query ("masonry", "sill", "external")
  the details D-001, D-003, D-004 and D-005 score 0.2 each (the exposure alone matches) and
  D-002 scores 0.0; the match is D-001, the first of the four, with confidence 0.2, which
  is strictly between 0.0 and 0.85.\<close>

theorem masonry_query_result:
  "map (\<lambda>d. fst (score_match (input_norm
         \<lparr>host_element = ''masonry'', adjacent_element = ''sill'', exposure = ''external''\<rparr>) d))
       SAMPLE_DETAILS = [0.2, 0.0, 0.2, 0.2, 0.2]
   \<and> score_match (input_norm
         \<lparr>host_element = ''masonry'', adjacent_element = ''sill'', exposure = ''external''\<rparr>) D_003
       = (0.2, [''Host differs'', ''Adjacent element differs'', ''Exact match on exposure''])
   \<and> best_of SAMPLE_DETAILS
         \<lparr>host_element = ''masonry'', adjacent_element = ''sill'', exposure = ''external''\<rparr>
       = (Some D_001, 0.2,
          [''Host differs'', ''Adjacent element differs'', ''Exact match on exposure''])
   \<and> match_detail
         \<lparr>host_element = ''masonry'', adjacent_element = ''sill'', exposure = ''external''\<rparr>
       = \<lparr>suggested_detail = d_title D_001, confidence = 0.2,
          reason = ''Low confidence: Host differs; Adjacent element differs; Exact match on exposure''\<rparr>
   \<and> 0.0 < confidence (match_detail
         \<lparr>host_element = ''masonry'', adjacent_element = ''sill'', exposure = ''external''\<rparr>)
   \<and> confidence (match_detail
         \<lparr>host_element = ''masonry'', adjacent_element = ''sill'', exposure = ''external''\<rparr>) < 0.85"
  unfolding masonry_query_match masonry_query_best
  by (simp add: masonry_query_input masonry_query_scores SAMPLE_DETAILS_def)

text \<open>Claim C5: \<open>normalize\<close> is the normalizer of the specification on every string
  of code points: the trimming of the whitespace at both ends, then the lowercasing, then
  the rules of the table in order, each replacing all the occurrences of its pattern; the
  test \<open>old in s\<close> of the source changes nothing. An absent value and the empty string
  are normalized to the empty string. The function is total: \<open>replace\<close> terminates on
  every string, and no branch of the embedding is an error.
  \<^item> \<open>strip\<close> takes a run of whitespace off each end and nothing else, and what is left
    is empty or has no whitespace at either end; the no-break space, the em space and the
    ideographic space are whitespace.
  \<^item> \<open>lower\<close> on a string of Latin-1 puts the letters A to Z and the accented capitals
    in lower case and leaves the rest; beyond Latin-1 it gives two code points for U+0130,
    and for the capital sigma the final sigma after a cased character at the end of a
    word, an apostrophe not counting, and the small sigma elsewhere.
  \<^item> U+00C9, a capital E with an acute accent, followed by "XTERIOR" is normalized to
    U+00E9 followed by "xterior", which no rule changes; "Exterior MASONRY " and U+00C9
    between a no-break space and an ideographic space is normalized to "external cmu "
    and U+00E9.
  \<^item> On an ASCII string the byte-level \<open>normalize_text\<close> is \<open>normalize\<close>.\<close>

theorem normalize_refines_spec:
  "normalize_unicode v = normalize_spec v
   \<and> normalize_unicode None = [] \<and> normalize_unicode (Some []) = []
   \<and> (\<exists>l r. s = l @ py_strip s @ r \<and> list_all whitespace l \<and> list_all whitespace r)
   \<and> (py_strip s = [] \<or> (\<not> whitespace (hd (py_strip s)) \<and> \<not> whitespace (last (py_strip s))))
   \<and> py_strip [0xA0, 0x2003, 0x45, 0x20, 0xC9, 0x3000, 0x9] = [0x45, 0x20, 0xC9]
   \<and> (list_all (\<lambda>c. c < 0x100) s \<longrightarrow> py_lower s = map latin1_lowercase s)
   \<and> py_lower [0x130] = [0x69, 0x307]
   \<and> py_lower [0x3A3] = [0x3C3]
   \<and> py_lower [0x41, 0x3A3] = [0x61, 0x3C2]
   \<and> py_lower [0x41, 0x27, 0x3A3, 0x27, 0x20] = [0x61, 0x27, 0x3C2, 0x27, 0x20]
   \<and> py_lower [0x41, 0x3A3, 0x42] = [0x61, 0x3C3, 0x62]
   \<and> normalize_unicode (Some [0xC9, 0x58, 0x54, 0x45, 0x52, 0x49, 0x4F, 0x52])
       = [0xE9, 0x78, 0x74, 0x65, 0x72, 0x69, 0x6F, 0x72]
   \<and> normalize_unicode (Some [0xA0, 0x45, 0x78, 0x74, 0x65, 0x72, 0x69, 0x6F, 0x72, 0x20,
         0x4D, 0x41, 0x53, 0x4F, 0x4E, 0x52, 0x59, 0x20, 0xC9, 0x3000])
       = [0x65, 0x78, 0x74, 0x65, 0x72, 0x6E, 0x61, 0x6C, 0x20, 0x63, 0x6D, 0x75, 0x20, 0xE9]
   \<and> (is_ascii t \<longrightarrow>
        normalize_unicode (Some (code_points t)) = code_points (normalize_text (Some t)))"
  using normalize_unicode_spec [of v] normalize_unicode_empty py_strip_parts [of s]
    py_strip_ends [of s] py_strip_value py_lower_latin1 [of s] py_lower_values
    normalize_unicode_accented normalize_unicode_no_break_space normalize_text_ascii [of t]
  by (intro conjI impI) assumption+

text \<open>Witness: a string of Latin-1 with an accented capital, and an ASCII string with
  whitespace at both ends and capitals.\<close>

theorem normalize_refines_spec_witness:
  "list_all (\<lambda>c. c < 0x100) [0x20, 0xC9, 0x78, 0x54, 0xA0 :: nat]
   \<and> py_lower [0x20, 0xC9, 0x78, 0x54, 0xA0] = [0x20, 0xE9, 0x78, 0x74, 0xA0]
   \<and> is_ascii '' Exterior Masonry ''
   \<and> normalize_unicode (Some (code_points '' Exterior Masonry '')) = code_points ''external cmu''
   \<and> normalize_spec (Some (code_points '' Exterior Masonry '')) = code_points ''external cmu''"
proof -
  have a: "list_all (\<lambda>c. c < 0x100) [0x20, 0xC9, 0x78, 0x54, 0xA0 :: nat]" by simp
  have b: "is_ascii '' Exterior Masonry ''" by (simp add: is_ascii_def)
  from normalize_refines_spec
    [of "Some (code_points '' Exterior Masonry '')" "[0x20, 0xC9, 0x78, 0x54, 0xA0]"
      "'' Exterior Masonry ''"]
  have "normalize_unicode (Some (code_points '' Exterior Masonry ''))
      = normalize_spec (Some (code_points '' Exterior Masonry ''))"
    and "list_all (\<lambda>c. c < 0x100) [0x20, 0xC9, 0x78, 0x54, 0xA0 :: nat]
      \<longrightarrow> py_lower [0x20, 0xC9, 0x78, 0x54, 0xA0]
          = map latin1_lowercase [0x20, 0xC9, 0x78, 0x54, 0xA0]"
    and "is_ascii '' Exterior Masonry ''
      \<longrightarrow> normalize_unicode (Some (code_points '' Exterior Masonry ''))
          = code_points (normalize_text (Some '' Exterior Masonry ''))"
    by blast+
  with a b show ?thesis
    by (simp add: latin1_lowercase_def normalize_text_values)
qed

text \<open>Claim C6, as stated, fails. The shipped table satisfies the hypothesis: no
  replacement contains a pattern. Yet "concrete concrete slab" is normalized to
  "concrete slab", and that to "slab": the replacement "slab" of the third rule, behind
  a "concrete " that was there before, is the pattern of the rule again.\<close>

theorem normalize_twice_counterexample:
  "no_replacement_triggers NORMALIZATION_SYNONYMS
   \<and> normalize_text (Some ''concrete concrete slab'') = ''concrete slab''
   \<and> normalize_text (Some (normalize_text (Some ''concrete concrete slab''))) = ''slab''
   \<and> normalize_text (Some (normalize_text (Some ''concrete concrete slab'')))
       \<noteq> normalize_text (Some ''concrete concrete slab'')"
  by code_simp

text \<open>Claim C6, as amended: normalizing twice is normalizing once exactly on the strings
  whose normalized form does not contain "concrete slab", and these are the strings that,
  trimmed and in lower case, do not contain "concrete concrete slab". The five other
  patterns never occur in a normalized string.\<close>

theorem normalize_twice:
  "(normalize_text (Some (normalize_text v)) = normalize_text v
      \<longleftrightarrow> \<not> sublist ''concrete slab'' (normalize_text v))
   \<and> (sublist ''concrete slab'' (normalize_text v)
      \<longleftrightarrow> sublist ''concrete concrete slab''
            (lower (strip (case v of None \<Rightarrow> [] | Some s \<Rightarrow> s))))"
proof -
  have "normalize_text (Some (normalize_text v)) = normalize_text v
      \<longleftrightarrow> \<not> sublist ''concrete slab'' (normalize_text v)"
  proof
    assume "normalize_text (Some (normalize_text v)) = normalize_text v"
    then show "\<not> sublist ''concrete slab'' (normalize_text v)"
      using normalize_text_changes [of v] by blast
  next
    assume "\<not> sublist ''concrete slab'' (normalize_text v)"
    then have "list_all (\<lambda>(old, new). \<not> sublist old (normalize_text v)) NORMALIZATION_SYNONYMS"
      by (simp add: NORMALIZATION_SYNONYMS_def shipped_patterns_gone)
    then show "normalize_text (Some (normalize_text v)) = normalize_text v"
      by (rule normalize_text_fixed)
  qed
  then show ?thesis using normalize_text_nested [of v] by blast
qed

end
